(* ===== verification/Lexer_Prelude.thy ===== *)
theory Lexer_Prelude
  imports Main "HOL-Library.Char_ord" "HOL-Library.Sublist"
begin

text \<open>
  Shared vocabulary of the development: the fact collections the component
  theories add to, the character classes of the C library that
  \<^verbatim>\<open>lexer.cc\<close> calls (\<^verbatim>\<open>isspace\<close>, \<^verbatim>\<open>isdigit\<close>, \<^verbatim>\<open>isalpha\<close>, \<^verbatim>\<open>isalnum\<close>,
  \<^verbatim>\<open>toupper\<close>, in the "C" locale), and the list lemmas on \<open>takeWhile\<close> and
  \<open>dropWhile\<close> that carry the proofs about scanning loops.

  A C \<^verbatim>\<open>char\<close> is modelled as an Isabelle \<open>char\<close> (one byte); comparisons are those
  of \<open>HOL-Library.Char_ord\<close>, that is, of the byte values. Where the source
  adds an \<^verbatim>\<open>int\<close> to a character the model computes in \<open>int\<close> through \<open>of_char\<close>.
\<close>

section \<open>Fact collections\<close>

named_theorems cursor_simps "effect of the cursor operations on pending input and the end flag"
named_theorems ctype_defs "definitions of the character classes"
named_theorems scan_simps "characteristic equations of the scanning functions"
named_theorems eof_mono "operations that never clear the end flag of the cursor"

section \<open>Characters\<close>

abbreviation newline :: char where
  "newline \<equiv> CHR 0x0A"

type_synonym cstring = "char list"

definition isspace :: "char \<Rightarrow> bool" where
  "isspace c \<longleftrightarrow> c = CHR '' '' \<or> (CHR 0x09 \<le> c \<and> c \<le> CHR 0x0D)"

definition isdigit :: "char \<Rightarrow> bool" where
  "isdigit c \<longleftrightarrow> CHR ''0'' \<le> c \<and> c \<le> CHR ''9''"

definition islower :: "char \<Rightarrow> bool" where
  "islower c \<longleftrightarrow> CHR ''a'' \<le> c \<and> c \<le> CHR ''z''"

definition isupper :: "char \<Rightarrow> bool" where
  "isupper c \<longleftrightarrow> CHR ''A'' \<le> c \<and> c \<le> CHR ''Z''"

definition isalpha :: "char \<Rightarrow> bool" where
  "isalpha c \<longleftrightarrow> isupper c \<or> islower c"

definition isalnum :: "char \<Rightarrow> bool" where
  "isalnum c \<longleftrightarrow> isalpha c \<or> isdigit c"

definition toupper :: "char \<Rightarrow> char" where
  "toupper c = (if islower c then char_of (of_char c - (32::nat)) else c)"

lemmas [ctype_defs] =
  isspace_def isdigit_def islower_def isupper_def isalpha_def isalnum_def toupper_def

lemma char_le_code: "c \<le> d \<longleftrightarrow> (of_char c :: nat) \<le> of_char d"
  by (simp add: less_eq_char_def)

lemma char_less_code: "c < d \<longleftrightarrow> (of_char c :: nat) < of_char d"
  by (simp add: less_char_def)

lemma char_eq_code: "c = d \<longleftrightarrow> (of_char c :: nat) = of_char d"
  by auto

lemma of_char_less_256 [simp]: "(of_char c :: nat) < 256"
  by (cases c) simp

lemma isspace_newline [simp]: "isspace newline"
  by (simp add: isspace_def)

lemma isspace_blank [simp]: "isspace (CHR '' '')"
  by (simp add: isspace_def)

lemma isdigit_not_isspace: "isdigit c \<Longrightarrow> \<not> isspace c"
  by (auto simp: isdigit_def isspace_def char_le_code)

lemma isalpha_not_isspace: "isalpha c \<Longrightarrow> \<not> isspace c"
  by (auto simp: ctype_defs char_le_code)

lemma isalpha_not_isdigit: "isalpha c \<Longrightarrow> \<not> isdigit c"
  by (auto simp: ctype_defs char_le_code)

lemma isdigit_not_isalpha: "isdigit c \<Longrightarrow> \<not> isalpha c"
  by (auto simp: ctype_defs char_le_code)

lemma isalnum_simps [simp]:
  "isalpha c \<Longrightarrow> isalnum c" "isdigit c \<Longrightarrow> isalnum c"
  by (simp_all add: isalnum_def)

lemma of_char_toupper:
  "(of_char (toupper c) :: nat) = (if islower c then of_char c - 32 else of_char c)"
  by (auto simp: toupper_def islower_def char_le_code)

lemma toupper_idem [simp]: "toupper (toupper c) = toupper c"
proof (cases "islower c")
  case True
  then have "\<not> islower (char_of (of_char c - (32::nat)))"
    by (auto simp: islower_def char_le_code)
  then show ?thesis by (simp add: toupper_def)
next
  case False
  then show ?thesis by (simp add: toupper_def)
qed

lemma toupper_digit [simp]: "isdigit c \<Longrightarrow> toupper c = c"
  by (auto simp: toupper_def islower_def isdigit_def char_le_code)

section \<open>Maximal runs\<close>

text \<open>
  Every scanning loop of the lexer consumes a maximal run of characters that
  satisfy a predicate; \<open>takeWhile P\<close> is the run and \<open>dropWhile P\<close> what follows.
\<close>

lemma takeWhile_all [simp]: "list_all P xs \<Longrightarrow> takeWhile P (xs @ ys) = xs @ takeWhile P ys"
  by (induction xs) auto

lemma dropWhile_all [simp]: "list_all P xs \<Longrightarrow> dropWhile P (xs @ ys) = dropWhile P ys"
  by (induction xs) auto

lemma takeWhile_stop [simp]:
  "list_all P xs \<Longrightarrow> \<not> P y \<Longrightarrow> takeWhile P (xs @ y # ys) = xs"
  by (induction xs) auto

lemma dropWhile_stop [simp]:
  "list_all P xs \<Longrightarrow> \<not> P y \<Longrightarrow> dropWhile P (xs @ y # ys) = y # ys"
  by (induction xs) auto

lemma takeWhile_only [simp]: "list_all P xs \<Longrightarrow> takeWhile P xs = xs"
  by (induction xs) auto

lemma dropWhile_only [simp]: "list_all P xs \<Longrightarrow> dropWhile P xs = []"
  by (induction xs) auto

lemma list_all_takeWhile [simp]: "list_all P (takeWhile P xs)"
  by (induction xs) auto

lemma dropWhile_hd: "dropWhile P xs = y # ys \<Longrightarrow> \<not> P y"
  by (induction xs) (auto split: if_splits)

lemma dropWhile_Nil_conv: "dropWhile P xs = [] \<longleftrightarrow> list_all P xs"
  by (induction xs) auto

lemma length_dropWhile_less:
  "xs \<noteq> [] \<Longrightarrow> P (hd xs) \<Longrightarrow> length (dropWhile P xs) < length xs"
  by (cases xs) (auto simp: less_Suc_eq_le length_dropWhile_le)

lemma run_split: "takeWhile P xs @ dropWhile P xs = xs"
  by simp

lemma list_all_weaken: "list_all P xs \<Longrightarrow> (\<And>x. P x \<Longrightarrow> Q x) \<Longrightarrow> list_all Q xs"
  by (induction xs) auto

lemma list_all_butlast: "list_all P xs \<Longrightarrow> list_all P (butlast xs)"
  by (auto simp: list_all_iff dest: in_set_butlastD)

end
