(* ===== verification/Input_Buffer.thy ===== *)
theory Input_Buffer
  imports Lexer_Prelude
begin

text \<open>
  The character cursor that \<^verbatim>\<open>lexer.cc\<close> reads through (\<^verbatim>\<open>input.GetChar\<close>,
  \<^verbatim>\<open>input.UngetChar\<close>, \<^verbatim>\<open>input.UngetString\<close>, \<^verbatim>\<open>input.EndOfInput\<close>). Its code
  (\<^verbatim>\<open>inputbuf.h\<close>) is not part of the sources, so it is modelled from the
  interface the specification gives: a fetch with unbounded push-back and an
  end-of-input predicate.

  The state is the pending input (what a sequence of fetches will deliver,
  pushed-back characters first) and a flag that records that a fetch has found
  nothing. The flag is never cleared; \<open>EndOfInput\<close> holds when the flag is set
  and nothing is pending, so pushing characters back after the end was seen
  makes them available again. That the flag is set by a failed fetch, and not
  as soon as the last character is delivered, is what the scanning idiom of
  \<^verbatim>\<open>lexer.cc\<close> (fetch, then test \<^verbatim>\<open>EndOfInput\<close>, then use the character) relies on.

  A fetch writes through a reference: \<open>GetChar c inp\<close> takes the value the
  variable holds and returns the value it holds afterwards, which is the old one
  when nothing could be fetched.
\<close>

section \<open>State and operations\<close>

record InputBuffer =
  pending :: cstring
  eof :: bool

definition EndOfInput :: "InputBuffer \<Rightarrow> bool" where
  "EndOfInput inp \<longleftrightarrow> pending inp = [] \<and> eof inp"

definition GetChar :: "char \<Rightarrow> InputBuffer \<Rightarrow> char \<times> InputBuffer" where
  "GetChar c inp =
     (case pending inp of
        [] \<Rightarrow> (c, inp\<lparr>eof := True\<rparr>)
      | x # xs \<Rightarrow> (x, inp\<lparr>pending := xs\<rparr>))"

definition UngetChar :: "char \<Rightarrow> InputBuffer \<Rightarrow> InputBuffer" where
  "UngetChar c inp = inp\<lparr>pending := c # pending inp\<rparr>"

definition UngetString :: "cstring \<Rightarrow> InputBuffer \<Rightarrow> InputBuffer" where
  "UngetString s inp = inp\<lparr>pending := s @ pending inp\<rparr>"

text \<open>The statement \<^verbatim>\<open>if (!input.EndOfInput()) input.UngetChar(c);\<close> that ends
  every look-ahead of the lexer.\<close>

definition unget_unless_eof :: "char \<Rightarrow> InputBuffer \<Rightarrow> InputBuffer" where
  "unget_unless_eof c inp = (if \<not> EndOfInput inp then UngetChar c inp else inp)"

text \<open>A cursor over a whole input, before anything was read.\<close>

definition cursor_of :: "cstring \<Rightarrow> InputBuffer" where
  "cursor_of s = \<lparr>pending = s, eof = False\<rparr>"

text \<open>How far a cursor is from the end: the pending characters, and one more
  fetch while the end has not been seen. Every fetch decreases it unless the
  cursor is at the end already.\<close>

definition fetches_left :: "InputBuffer \<Rightarrow> nat" where
  "fetches_left inp = length (pending inp) + (if eof inp then 0 else 1)"

section \<open>Effect of the operations\<close>

lemma GetChar_Cons [cursor_simps, simp]:
  "pending inp = x # xs \<Longrightarrow> GetChar c inp = (x, inp\<lparr>pending := xs\<rparr>)"
  by (simp add: GetChar_def)

lemma GetChar_Nil [cursor_simps, simp]:
  "pending inp = [] \<Longrightarrow> GetChar c inp = (c, inp\<lparr>eof := True\<rparr>)"
  by (simp add: GetChar_def)

lemma GetChar_cursor [cursor_simps, simp]:
  "GetChar c \<lparr>pending = x # xs, eof = e\<rparr> = (x, \<lparr>pending = xs, eof = e\<rparr>)"
  "GetChar c \<lparr>pending = [], eof = e\<rparr> = (c, \<lparr>pending = [], eof = True\<rparr>)"
  by (simp_all add: GetChar_def)

lemma UngetChar_cursor [cursor_simps, simp]:
  "UngetChar c \<lparr>pending = xs, eof = e\<rparr> = \<lparr>pending = c # xs, eof = e\<rparr>"
  by (simp add: UngetChar_def)

lemma UngetString_cursor [cursor_simps, simp]:
  "UngetString s \<lparr>pending = xs, eof = e\<rparr> = \<lparr>pending = s @ xs, eof = e\<rparr>"
  by (simp add: UngetString_def)

lemma EndOfInput_cursor [cursor_simps, simp]:
  "EndOfInput \<lparr>pending = xs, eof = e\<rparr> \<longleftrightarrow> xs = [] \<and> e"
  by (simp add: EndOfInput_def)

lemma pending_UngetChar [cursor_simps, simp]: "pending (UngetChar c inp) = c # pending inp"
  by (simp add: UngetChar_def)

lemma eof_UngetChar [cursor_simps, simp]: "eof (UngetChar c inp) = eof inp"
  by (simp add: UngetChar_def)

lemma pending_UngetString [cursor_simps, simp]:
  "pending (UngetString s inp) = s @ pending inp"
  by (simp add: UngetString_def)

lemma eof_UngetString [cursor_simps, simp]: "eof (UngetString s inp) = eof inp"
  by (simp add: UngetString_def)

lemma UngetString_Nil [cursor_simps, simp]: "UngetString [] inp = inp"
  by (simp add: UngetString_def)

lemma UngetString_Cons [cursor_simps]:
  "UngetString (c # s) inp = UngetChar c (UngetString s inp)"
  by (simp add: UngetString_def UngetChar_def)

lemma UngetString_append [cursor_simps, simp]:
  "UngetString s (UngetString t inp) = UngetString (s @ t) inp"
  by (simp add: UngetString_def)

lemma UngetString_UngetChar [cursor_simps, simp]:
  "UngetString s (UngetChar c inp) = UngetString (s @ [c]) inp"
  by (simp add: UngetString_def UngetChar_def)

lemma not_EndOfInput_UngetChar [cursor_simps, simp]: "\<not> EndOfInput (UngetChar c inp)"
  by (simp add: EndOfInput_def)

lemma EndOfInput_UngetString [cursor_simps, simp]:
  "EndOfInput (UngetString s inp) \<longleftrightarrow> s = [] \<and> EndOfInput inp"
  by (auto simp: EndOfInput_def)

lemma not_eof_not_EndOfInput [cursor_simps, simp]: "\<not> eof inp \<Longrightarrow> \<not> EndOfInput inp"
  by (simp add: EndOfInput_def)

lemma pending_not_EndOfInput [cursor_simps, simp]: "pending inp \<noteq> [] \<Longrightarrow> \<not> EndOfInput inp"
  by (simp add: EndOfInput_def)

lemma eof_GetChar_mono: "eof inp \<Longrightarrow> eof (snd (GetChar c inp))"
  by (simp add: GetChar_def split: list.splits)

lemma eof_GetChar [cursor_simps]:
  "eof (snd (GetChar c inp)) \<longleftrightarrow> eof inp \<or> pending inp = []"
  by (simp add: GetChar_def split: list.splits)

lemma pending_GetChar [cursor_simps]: "pending (snd (GetChar c inp)) = tl (pending inp)"
  by (simp add: GetChar_def split: list.splits)

lemma fst_GetChar [cursor_simps]:
  "fst (GetChar c inp) = (case pending inp of [] \<Rightarrow> c | x # _ \<Rightarrow> x)"
  by (simp add: GetChar_def split: list.splits)

lemma unget_unless_eof_simps [cursor_simps, simp]:
  "\<not> eof inp \<Longrightarrow> unget_unless_eof c inp = UngetChar c inp"
  "pending inp \<noteq> [] \<Longrightarrow> unget_unless_eof c inp = UngetChar c inp"
  "EndOfInput inp \<Longrightarrow> unget_unless_eof c inp = inp"
  by (simp_all add: unget_unless_eof_def)

lemma eof_unget_unless_eof [cursor_simps, simp]: "eof (unget_unless_eof c inp) = eof inp"
  by (simp add: unget_unless_eof_def)

lemma cursor_eqI: "pending a = pending b \<Longrightarrow> eof a = eof b \<Longrightarrow> a = (b::InputBuffer)"
  by simp

lemma cursor_of_simps [cursor_simps, simp]:
  "pending (cursor_of s) = s" "\<not> eof (cursor_of s)"
  by (simp_all add: cursor_of_def)

section \<open>Fetch and push-back\<close>

text \<open>A fetch that delivered a character is undone by pushing the character back.\<close>

lemma UngetChar_GetChar:
  "pending inp \<noteq> [] \<Longrightarrow> UngetChar (fst (GetChar c inp)) (snd (GetChar c inp)) = inp"
  by (cases "pending inp") (simp_all add: UngetChar_def)

lemma GetChar_UngetChar [cursor_simps, simp]: "GetChar c (UngetChar d inp) = (d, inp)"
  by (simp add: GetChar_def UngetChar_def)

text \<open>Every fetch from a cursor that is not at the end makes progress.\<close>

lemma fetches_left_GetChar:
  "\<not> EndOfInput inp \<Longrightarrow> fetches_left (snd (GetChar c inp)) < fetches_left inp"
  by (auto simp: fetches_left_def EndOfInput_def GetChar_def split: list.splits)

lemma fetches_left_GetChar_le: "fetches_left (snd (GetChar c inp)) \<le> fetches_left inp"
  by (auto simp: fetches_left_def GetChar_def split: list.splits)

end
