(* ===== verification/Scan_Loop.thy ===== *)
theory Scan_Loop
  imports Input_Buffer
begin

text \<open>
  The loop that \<^verbatim>\<open>lexer.cc\<close> writes five times, with a different character class
  each time (in \<^verbatim>\<open>checkAndReturnNum\<close>, three times in \<^verbatim>\<open>matchToBase\<close>, and in
  \<^verbatim>\<open>ScanIdOrKeyword\<close>):
  \<^verbatim>\<open>while (!input.EndOfInput() && P(c)) { scanned += c; input.GetChar(c); }\<close>
  Its state is the look-ahead character \<open>c\<close>, the text collected so far and the
  cursor. The loop ends because every fetch of a cursor that is not at the end
  brings it closer to the end (\<open>fetches_left\<close>).

  The lemmas say what the loop computes in terms of the pending input: the
  maximal run of characters in the class is appended to the text, the
  character after the run is the look-ahead. They come in two groups, for a
  cursor that has not seen the end of the input and for one that has; in the
  second case the last pending character is fetched but never used.
\<close>

section \<open>The loop\<close>

function scan_while ::
  "(char \<Rightarrow> bool) \<Rightarrow> char \<times> cstring \<times> InputBuffer \<Rightarrow> char \<times> cstring \<times> InputBuffer"
where
  "scan_while P (c, scanned, inp) =
     (if \<not> EndOfInput inp \<and> P c
      then (let (c', inp') = GetChar c inp in scan_while P (c', scanned @ [c], inp'))
      else (c, scanned, inp))"
  by pat_completeness auto
termination
proof (relation "measure (\<lambda>(P, c, scanned, inp). fetches_left inp)")
  show "wf (measure (\<lambda>(P, c, scanned, inp). fetches_left inp))"
    by simp
next
  fix P c scanned inp x xa y
  assume "\<not> EndOfInput inp \<and> P c" and "x = GetChar c inp" and "(xa, y) = x"
  then have "y = snd (GetChar c inp)"
    by (metis snd_conv)
  with \<open>\<not> EndOfInput inp \<and> P c\<close>
  show "((P, xa, scanned @ [c], y), P, c, scanned, inp)
      \<in> measure (\<lambda>(P, c, scanned, inp). fetches_left inp)"
    by (simp add: fetches_left_GetChar)
qed

declare scan_while.simps [simp del]

text \<open>The loop followed by \<^verbatim>\<open>if (!input.EndOfInput()) input.UngetChar(c);\<close>: the
  value of \<open>c\<close>, the text collected and the cursor left behind.\<close>

definition scan_run ::
  "(char \<Rightarrow> bool) \<Rightarrow> char \<times> cstring \<times> InputBuffer \<Rightarrow> char \<times> cstring \<times> InputBuffer"
where
  "scan_run P st =
     (let (c', scanned', inp') = scan_while P st
      in (c', scanned', unget_unless_eof c' inp'))"

section \<open>Unfolding\<close>

lemma scan_while_stop [scan_simps]:
  "EndOfInput inp \<or> \<not> P c \<Longrightarrow> scan_while P (c, scanned, inp) = (c, scanned, inp)"
  by (subst scan_while.simps) auto

lemma scan_while_step [scan_simps]:
  "\<not> EndOfInput inp \<Longrightarrow> P c \<Longrightarrow>
   scan_while P (c, scanned, inp) =
     scan_while P (fst (GetChar c inp), scanned @ [c], snd (GetChar c inp))"
  by (subst scan_while.simps) (simp add: split_beta)

lemma scan_while_Cons [scan_simps]:
  "P c \<Longrightarrow> scan_while P (c, scanned, \<lparr>pending = x # xs, eof = e\<rparr>) =
     scan_while P (x, scanned @ [c], \<lparr>pending = xs, eof = e\<rparr>)"
  by (simp add: scan_while_step)

lemma scan_while_Nil [scan_simps]:
  "P c \<Longrightarrow> scan_while P (c, scanned, \<lparr>pending = [], eof = False\<rparr>) =
     (c, scanned @ [c], \<lparr>pending = [], eof = True\<rparr>)"
  by (simp add: scan_while_step scan_while_stop)

lemma scan_while_end [scan_simps]:
  "scan_while P (c, scanned, \<lparr>pending = [], eof = True\<rparr>) =
     (c, scanned, \<lparr>pending = [], eof = True\<rparr>)"
  by (simp add: scan_while_stop)

lemma scan_while_not [scan_simps]:
  "\<not> P c \<Longrightarrow> scan_while P (c, scanned, inp) = (c, scanned, inp)"
  by (simp add: scan_while_stop)

section \<open>What the loop computes before the end of the input was seen\<close>

lemma scan_while_fresh:
  "scan_while P (c, scanned, \<lparr>pending = s, eof = False\<rparr>) =
     (if dropWhile P (c # s) = [] then last (c # s) else hd (dropWhile P (c # s)),
      scanned @ takeWhile P (c # s),
      \<lparr>pending = tl (dropWhile P (c # s)), eof = (dropWhile P (c # s) = [])\<rparr>)"
proof (induction s arbitrary: c scanned)
  case Nil
  then show ?case by (cases "P c") (simp_all add: scan_simps)
next
  case (Cons x xs)
  show ?case
  proof (cases "P c")
    case True
    then show ?thesis
      using Cons.IH [of x "scanned @ [c]"] by (simp add: scan_while_Cons)
  next
    case False
    then show ?thesis by (simp add: scan_simps)
  qed
qed

text \<open>The characteristic equation of a look-ahead scan: starting from a character
  that was fetched from a cursor that has not seen the end, the loop and the
  final push-back split the input \<open>c # s\<close> into its maximal run and the rest.
  The end flag is set exactly when the run extends to the end of the input.\<close>

definition lookahead :: "(char \<Rightarrow> bool) \<Rightarrow> char \<Rightarrow> cstring \<Rightarrow> char" where
  "lookahead P z s = (if dropWhile P s = [] then z else hd (dropWhile P s))"

lemma lookahead_simps [simp]:
  "lookahead P z [] = z"
  "P x \<Longrightarrow> lookahead P z (x # xs) = lookahead P z xs"
  "\<not> P x \<Longrightarrow> lookahead P z (x # xs) = x"
  by (simp_all add: lookahead_def)

lemma scan_run_fresh [scan_simps]:
  "scan_run P (c, scanned, \<lparr>pending = s, eof = False\<rparr>) =
     (lookahead P (last (c # s)) (c # s), scanned @ takeWhile P (c # s),
      \<lparr>pending = dropWhile P (c # s), eof = (dropWhile P (c # s) = [])\<rparr>)"
  by (cases "dropWhile P (c # s)") (simp_all add: scan_run_def scan_while_fresh lookahead_def)

text \<open>The same with the fetch of the first character included, as in
  \<^verbatim>\<open>input.GetChar(c); while (...) {...} if (!input.EndOfInput()) input.UngetChar(c);\<close>\<close>

lemma GetChar_scan_run_fresh [scan_simps]:
  "scan_run P (fst (GetChar c \<lparr>pending = s, eof = False\<rparr>), scanned,
       snd (GetChar c \<lparr>pending = s, eof = False\<rparr>)) =
     (lookahead P (last (c # s)) s, scanned @ takeWhile P s,
      \<lparr>pending = dropWhile P s, eof = (dropWhile P s = [])\<rparr>)"
proof (cases s)
  case Nil
  then show ?thesis
    by (simp add: scan_run_def scan_while_end)
next
  case (Cons x xs)
  then show ?thesis
    by (simp add: scan_run_fresh lookahead_def)
qed

section \<open>What the loop computes after the end of the input was seen\<close>

text \<open>Once a fetch has failed, \<open>EndOfInput\<close> holds as soon as the last pending
  character has been fetched, so the loop leaves without looking at that
  character and the push-back that follows does not return it: the run is
  computed on the pending input without its last character, and the last
  character is lost unless the run stopped before it.\<close>

lemma scan_while_seen:
  "scan_while P (c, scanned, \<lparr>pending = s @ [z], eof = True\<rparr>) =
     (if dropWhile P (c # s) = [] then z else hd (dropWhile P (c # s)),
      scanned @ takeWhile P (c # s),
      \<lparr>pending = (if dropWhile P (c # s) = [] then [] else tl (dropWhile P (c # s)) @ [z]),
       eof = True\<rparr>)"
proof (induction s arbitrary: c scanned)
  case Nil
  then show ?case by (cases "P c") (simp_all add: scan_simps)
next
  case (Cons x xs)
  show ?case
  proof (cases "P c")
    case True
    then show ?thesis
      using Cons.IH [of x "scanned @ [c]"] by (simp add: scan_while_Cons)
  next
    case False
    then show ?thesis by (simp add: scan_simps)
  qed
qed

lemma scan_run_seen [scan_simps]:
  "scan_run P (c, scanned, \<lparr>pending = s @ [z], eof = True\<rparr>) =
     (lookahead P z (c # s), scanned @ takeWhile P (c # s),
      \<lparr>pending = (if dropWhile P (c # s) = [] then [] else dropWhile P (c # s) @ [z]),
       eof = True\<rparr>)"
  by (cases "dropWhile P (c # s)") (simp_all add: scan_run_def scan_while_seen lookahead_def)

lemma scan_run_end [scan_simps]:
  "scan_run P (c, scanned, \<lparr>pending = [], eof = True\<rparr>) =
     (c, scanned, \<lparr>pending = [], eof = True\<rparr>)"
  by (simp add: scan_run_def scan_while_end)

section \<open>Frame properties\<close>

lemma scan_while_induct_rule:
  assumes "\<And>c scanned inp. EndOfInput inp \<or> \<not> P c \<Longrightarrow> Q c scanned inp (c, scanned, inp)"
    and "\<And>c scanned inp. \<not> EndOfInput inp \<Longrightarrow> P c \<Longrightarrow>
          Q (fst (GetChar c inp)) (scanned @ [c]) (snd (GetChar c inp))
            (scan_while P (fst (GetChar c inp), scanned @ [c], snd (GetChar c inp))) \<Longrightarrow>
          Q c scanned inp (scan_while P (fst (GetChar c inp), scanned @ [c], snd (GetChar c inp)))"
  shows "Q c scanned inp (scan_while P (c, scanned, inp))"
proof (induction "fetches_left inp" arbitrary: c scanned inp rule: less_induct)
  case less
  show ?case
  proof (cases "\<not> EndOfInput inp \<and> P c")
    case True
    then have a: "\<not> EndOfInput inp" and b: "P c"
      by simp_all
    have ih: "Q (fst (GetChar c inp)) (scanned @ [c]) (snd (GetChar c inp))
        (scan_while P (fst (GetChar c inp), scanned @ [c], snd (GetChar c inp)))"
      by (rule less) (simp add: a fetches_left_GetChar)
    have "Q c scanned inp
        (scan_while P (fst (GetChar c inp), scanned @ [c], snd (GetChar c inp)))"
      by (rule assms(2) [OF a b ih])
    with a b show ?thesis
      by (simp add: scan_while_step)
  next
    case False
    then have "Q c scanned inp (c, scanned, inp)"
      by (intro assms(1)) blast
    with False show ?thesis
      by (simp add: scan_while_stop)
  qed
qed

text \<open>The end flag is never cleared, the text only grows, and the cursor only
  moves towards the end.\<close>

lemma scan_while_eof_mono:
  "eof inp \<Longrightarrow> eof (snd (snd (scan_while P (c, scanned, inp))))"
  by (rule scan_while_induct_rule [where Q = "\<lambda>c scanned inp r. eof inp \<longrightarrow> eof (snd (snd r))", rule_format])
     (auto simp: eof_GetChar)

lemma scan_run_eof_mono [eof_mono]:
  "eof inp \<Longrightarrow> eof (snd (snd (scan_run P (c, scanned, inp))))"
  by (simp add: scan_run_def split_beta scan_while_eof_mono)

lemma scan_while_prefix:
  "prefix scanned (fst (snd (scan_while P (c, scanned, inp))))"
  by (rule scan_while_induct_rule [where Q = "\<lambda>c scanned inp r. prefix scanned (fst (snd r))"])
     (auto dest: append_prefixD)

lemma scan_while_fetches_left:
  "fetches_left (snd (snd (scan_while P (c, scanned, inp)))) \<le> fetches_left inp"
  by (rule scan_while_induct_rule
        [where Q = "\<lambda>c scanned inp r. fetches_left (snd (snd r)) \<le> fetches_left inp"])
     (auto intro: order_trans [OF _ fetches_left_GetChar_le])

lemma scan_while_exit:
  "EndOfInput (snd (snd (scan_while P (c, scanned, inp))))
    \<or> \<not> P (fst (scan_while P (c, scanned, inp)))"
  by (rule scan_while_induct_rule
        [where Q = "\<lambda>c scanned inp r. EndOfInput (snd (snd r)) \<or> \<not> P (fst r)"]) auto

end
