(* ===== verification/Token_Table.thy ===== *)
theory Token_Table
  imports Input_Buffer
begin

text \<open>
  The data of \<^verbatim>\<open>lexer.cc\<close>: token kinds in the order of the table \<^verbatim>\<open>reserved\<close>
  (the position of a name is the integer value of its kind), tokens, the
  keyword table with \<^verbatim>\<open>IsKeyword\<close> and \<^verbatim>\<open>FindKeywordIndex\<close>, the table of
  number formats \<^verbatim>\<open>numberTypes\<close>, the printable form of a token
  (\<^verbatim>\<open>Token::Print\<close>), and the state of a \<^verbatim>\<open>LexicalAnalyzer\<close>. The type of token
  kinds is an instance of \<open>linorder\<close>, ordered by the integer values of the
  enumerators.
\<close>

section \<open>Token kinds\<close>

datatype TokenType =
    END_OF_FILE
  | IF | WHILE | DO | THEN | PRINT
  | PLUS | MINUS | DIV | MULT
  | EQUAL | COLON | COMMA | SEMICOLON
  | LBRAC | RBRAC | LPAREN | RPAREN
  | NOTEQUAL | GREATER | LESS | LTEQ | GTEQ
  | DOT | NUM | ID | REALNUM | BASE08NUM | BASE16NUM | ERROR

definition token_types :: "TokenType list" where
  "token_types =
     [END_OF_FILE, IF, WHILE, DO, THEN, PRINT, PLUS, MINUS, DIV, MULT,
      EQUAL, COLON, COMMA, SEMICOLON, LBRAC, RBRAC, LPAREN, RPAREN,
      NOTEQUAL, GREATER, LESS, LTEQ, GTEQ, DOT, NUM, ID, REALNUM,
      BASE08NUM, BASE16NUM, ERROR]"

definition reserved :: "cstring list" where
  "reserved =
     [''END_OF_FILE'',
      ''IF'', ''WHILE'', ''DO'', ''THEN'', ''PRINT'',
      ''PLUS'', ''MINUS'', ''DIV'', ''MULT'',
      ''EQUAL'', ''COLON'', ''COMMA'', ''SEMICOLON'',
      ''LBRAC'', ''RBRAC'', ''LPAREN'', ''RPAREN'',
      ''NOTEQUAL'', ''GREATER'', ''LESS'', ''LTEQ'', ''GTEQ'',
      ''DOT'', ''NUM'', ''ID'', ''REALNUM'', ''BASE08NUM'', ''BASE16NUM'', ''ERROR'']"

text \<open>The cast \<^verbatim>\<open>(int) token_type\<close>: the position of the kind in the enumeration.\<close>

fun index_of :: "'a \<Rightarrow> 'a list \<Rightarrow> nat" where
  "index_of x [] = 0"
| "index_of x (y # ys) = (if x = y then 0 else Suc (index_of x ys))"

definition int_of_TokenType :: "TokenType \<Rightarrow> nat" where
  "int_of_TokenType t = index_of t token_types"

text \<open>The cast \<^verbatim>\<open>(TokenType) n\<close>. The source applies it to \<^verbatim>\<open>i + 1\<close> for an index
  \<open>i\<close> into the keyword table only; a value outside the enumeration, which C++
  leaves unspecified, is mapped to \<open>ERROR\<close>.\<close>

definition TokenType_of_int :: "nat \<Rightarrow> TokenType" where
  "TokenType_of_int n = (if n < length token_types then token_types ! n else ERROR)"

section \<open>Keywords\<close>

definition KEYWORDS_COUNT :: nat where
  "KEYWORDS_COUNT = 5"

definition keyword :: "cstring list" where
  "keyword = [''IF'', ''WHILE'', ''DO'', ''THEN'', ''PRINT'']"

text \<open>Both functions run \<^verbatim>\<open>for (i = 0; i < KEYWORDS_COUNT; i++)\<close> over the table and
  return at the first entry equal to \<open>s\<close>; the loops are recursions on the number
  of entries left, with the index \<open>i\<close> as argument.\<close>

fun IsKeyword_from :: "nat \<Rightarrow> nat \<Rightarrow> cstring \<Rightarrow> bool" where
  "IsKeyword_from 0 i s = False"
| "IsKeyword_from (Suc n) i s = (if s = keyword ! i then True else IsKeyword_from n (Suc i) s)"

definition IsKeyword :: "cstring \<Rightarrow> bool" where
  "IsKeyword s = IsKeyword_from KEYWORDS_COUNT 0 s"

fun FindKeywordIndex_from :: "nat \<Rightarrow> nat \<Rightarrow> cstring \<Rightarrow> TokenType" where
  "FindKeywordIndex_from 0 i s = ERROR"
| "FindKeywordIndex_from (Suc n) i s =
     (if s = keyword ! i then TokenType_of_int (i + 1) else FindKeywordIndex_from n (Suc i) s)"

definition FindKeywordIndex :: "cstring \<Rightarrow> TokenType" where
  "FindKeywordIndex s = FindKeywordIndex_from KEYWORDS_COUNT 0 s"

section \<open>Number formats\<close>

definition DOTSTRING :: cstring where "DOTSTRING = ''.''"
definition BASE08STRING :: cstring where "BASE08STRING = ''x08''"
definition BASE16STRING :: cstring where "BASE16STRING = ''x16''"
definition EMPTYSTRING :: cstring where "EMPTYSTRING = []"

record NumberType =
  validate_string :: cstring
  base :: int
  tokenType :: TokenType

definition numberTypes :: "NumberType list" where
  "numberTypes =
     [\<lparr>validate_string = DOTSTRING, base = 10, tokenType = REALNUM\<rparr>,
      \<lparr>validate_string = BASE08STRING, base = 8, tokenType = BASE08NUM\<rparr>,
      \<lparr>validate_string = BASE16STRING, base = 16, tokenType = BASE16NUM\<rparr>]"

lemmas string_consts = DOTSTRING_def BASE08STRING_def BASE16STRING_def EMPTYSTRING_def

section \<open>Tokens and their printable form\<close>

record Token =
  lexeme :: cstring
  token_type :: TokenType
  line_no :: int

text \<open>Decimal output of an \<^verbatim>\<open>int\<close>, as \<^verbatim>\<open>cout <<\<close> writes it.\<close>

fun string_of_nat :: "nat \<Rightarrow> cstring" where
  "string_of_nat n =
     (if n < 10 then [char_of (48 + n)]
      else string_of_nat (n div 10) @ [char_of (48 + n mod 10)])"

declare string_of_nat.simps [simp del]

definition string_of_int :: "int \<Rightarrow> cstring" where
  "string_of_int i = (if i < 0 then CHR ''-'' # string_of_nat (nat (- i)) else string_of_nat (nat i))"

text \<open>\<^verbatim>\<open>Token::Print\<close> writes one line to standard output; the model returns the line.\<close>

definition Print :: "Token \<Rightarrow> cstring" where
  "Print t =
     ''{'' @ lexeme t @ '' , '' @ reserved ! int_of_TokenType (token_type t) @ '' , ''
       @ string_of_int (Token.line_no t) @ ''}'' @ [newline]"

section \<open>State of the analyser\<close>

text \<open>
  The members of \<^verbatim>\<open>LexicalAnalyzer\<close> that \<^verbatim>\<open>lexer.cc\<close> uses: the stack of returned
  tokens (a \<^verbatim>\<open>vector\<close> used through \<^verbatim>\<open>push_back\<close>, \<^verbatim>\<open>back\<close> and \<^verbatim>\<open>pop_back\<close>; the head
  of the list is its back), the line counter, the token under construction
  \<^verbatim>\<open>tmp\<close>, which every scanning function writes and returns a copy of, and the
  cursor.
\<close>

record LexicalAnalyzer =
  tokens :: "Token list"
  line_no :: int
  tmp :: Token
  input :: InputBuffer

text \<open>The constructor, given the text on standard input.\<close>

definition new_LexicalAnalyzer :: "cstring \<Rightarrow> LexicalAnalyzer" where
  "new_LexicalAnalyzer s =
     \<lparr>tokens = [], line_no = 1,
      tmp = \<lparr>lexeme = EMPTYSTRING, token_type = ERROR, Token.line_no = 1\<rparr>,
      input = cursor_of s\<rparr>"

text \<open>
  Each scanning function declares \<^verbatim>\<open>char c;\<close> without an initial value and passes
  it to \<^verbatim>\<open>GetChar\<close> by reference. When that first fetch finds nothing, the
  function goes on to read \<open>c\<close>, whose value C++ leaves indeterminate. The model
  makes the value a parameter: a record with one character per function, which
  every function takes as its first argument. Results that do not depend on it
  are stated for all values; where the outcome does depend on it, the
  dependency is part of the statement.
\<close>

record Uninit =
  c_SkipSpace :: char
  c_verifyPatternMatch :: char
  c_checkAndReturnNum :: char
  c_matchToBase :: char
  c_ScanIdOrKeyword :: char
  c_GetToken :: char

section \<open>Properties of the tables\<close>

lemma length_token_types: "length token_types = 30"
  by (simp add: token_types_def)

lemma length_reserved: "length reserved = length token_types"
  by (simp add: token_types_def reserved_def)

lemma index_of_less: "x \<in> set xs \<Longrightarrow> index_of x xs < length xs"
  by (induction xs) auto

lemma nth_index_of [simp]: "x \<in> set xs \<Longrightarrow> xs ! index_of x xs = x"
  by (induction xs) auto

lemma index_of_nth [simp]: "distinct xs \<Longrightarrow> n < length xs \<Longrightarrow> index_of (xs ! n) xs = n"
proof (induction xs arbitrary: n)
  case Nil
  then show ?case by simp
next
  case (Cons x xs)
  then show ?case by (cases n) auto
qed

lemma token_types_complete: "t \<in> set token_types"
  by (cases t) (simp_all add: token_types_def)

lemma distinct_token_types: "distinct token_types"
  by (simp add: token_types_def)

lemma int_of_TokenType_less: "int_of_TokenType t < 30"
  using index_of_less [OF token_types_complete, of t]
  by (simp add: int_of_TokenType_def length_token_types)

lemma TokenType_of_int_inverse [simp]: "TokenType_of_int (int_of_TokenType t) = t"
  using index_of_less [OF token_types_complete, of t]
  by (simp add: TokenType_of_int_def int_of_TokenType_def token_types_complete)

lemma int_of_TokenType_inverse:
  "n < 30 \<Longrightarrow> int_of_TokenType (TokenType_of_int n) = n"
  by (simp add: TokenType_of_int_def int_of_TokenType_def length_token_types
      distinct_token_types)

section \<open>The order of the enumeration\<close>

text \<open>Token kinds are ordered by their integer values, as the enumerators of a
  C++ \<^verbatim>\<open>enum\<close> are; the keywords are the kinds from \<open>IF\<close> to \<open>PRINT\<close>.\<close>

lemma int_of_TokenType_inject: "int_of_TokenType a = int_of_TokenType b \<longleftrightarrow> a = b"
  by (metis TokenType_of_int_inverse)

instantiation TokenType :: linorder
begin

definition less_eq_TokenType :: "TokenType \<Rightarrow> TokenType \<Rightarrow> bool" where
  "less_eq_TokenType a b \<longleftrightarrow> int_of_TokenType a \<le> int_of_TokenType b"

definition less_TokenType :: "TokenType \<Rightarrow> TokenType \<Rightarrow> bool" where
  "less_TokenType a b \<longleftrightarrow> int_of_TokenType a < int_of_TokenType b"

instance
  by standard (auto simp: less_eq_TokenType_def less_TokenType_def int_of_TokenType_inject)

end

lemma int_of_keyword [simp]:
  "int_of_TokenType IF = 1" "int_of_TokenType WHILE = 2" "int_of_TokenType DO = 3"
  "int_of_TokenType THEN = 4" "int_of_TokenType PRINT = 5"
  by (simp_all add: int_of_TokenType_def token_types_def)

lemma IsKeyword_from_iff:
  "IsKeyword_from n i s \<longleftrightarrow> (\<exists>j<n. s = keyword ! (i + j))"
proof (induction n arbitrary: i)
  case 0
  then show ?case by simp
next
  case (Suc n)
  show ?case
  proof (cases "s = keyword ! i")
    case True
    then have "\<exists>j<Suc n. s = keyword ! (i + j)"
      by (intro exI [of _ 0]) simp
    with True show ?thesis by simp
  next
    case False
    have "(\<exists>j<Suc n. s = keyword ! (i + j)) \<longleftrightarrow> (\<exists>j<n. s = keyword ! (Suc i + j))"
      using False by (auto simp: less_Suc_eq_0_disj)
    with False Suc.IH [of "Suc i"] show ?thesis by simp
  qed
qed

lemma IsKeyword_iff: "IsKeyword s \<longleftrightarrow> s \<in> set keyword"
proof -
  have "length keyword = KEYWORDS_COUNT"
    by (simp add: keyword_def KEYWORDS_COUNT_def)
  then show ?thesis
    by (auto simp: IsKeyword_def IsKeyword_from_iff in_set_conv_nth)
qed

lemma FindKeywordIndex_from_ERROR:
  "\<not> IsKeyword_from n i s \<Longrightarrow> FindKeywordIndex_from n i s = ERROR"
  by (induction n arbitrary: i) (auto split: if_splits)


text \<open>The loop of \<^verbatim>\<open>FindKeywordIndex\<close> returns the kind after the position of the
  first entry equal to \<open>s\<close>.\<close>

lemma index_of_drop:
  "i < length xs \<Longrightarrow> s \<noteq> xs ! i \<Longrightarrow>
   index_of s (drop i xs) = Suc (index_of s (drop (Suc i) xs))"
  by (simp flip: Cons_nth_drop_Suc)

lemma FindKeywordIndex_from_index:
  "i + n = length keyword \<Longrightarrow>
   FindKeywordIndex_from n i s =
     (if s \<in> set (drop i keyword) then TokenType_of_int (Suc (i + index_of s (drop i keyword)))
      else ERROR)"
proof (induction n arbitrary: i)
  case 0
  then show ?case by simp
next
  case (Suc n)
  then have i: "i < length keyword" by simp
  from Suc.prems have "Suc i + n = length keyword" by simp
  note IH = Suc.IH [OF this]
  show ?case
  proof (cases "s = keyword ! i")
    case True
    with i show ?thesis
      by (simp flip: Cons_nth_drop_Suc)
  next
    case False
    with i IH show ?thesis
      by (simp add: index_of_drop) (simp flip: Cons_nth_drop_Suc)
  qed
qed

lemma FindKeywordIndex_index:
  "FindKeywordIndex s =
     (if s \<in> set keyword then TokenType_of_int (Suc (index_of s keyword)) else ERROR)"
  using FindKeywordIndex_from_index [of 0 KEYWORDS_COUNT s]
  by (simp add: FindKeywordIndex_def KEYWORDS_COUNT_def keyword_def)

end
