(* ===== verification/Pattern_Match.thy ===== *)
theory Pattern_Match
  imports Token_Table
begin

text \<open>
  \<^verbatim>\<open>LexicalAnalyzer::verifyPatternMatch\<close>: compare the upcoming input with a
  marker, character by character, and push back everything that was fetched
  when a character differs or the input ends. The \<^verbatim>\<open>for\<close> loop over the marker
  is a recursion on what is left of the marker, with the variable \<open>c\<close> and the
  characters collected so far as arguments.

  The lemmas: the function succeeds exactly on a cursor whose pending input
  starts with the marker and then consumes the marker; when it fails without
  running into the end of the input it leaves the cursor as it found it; when a
  fetch fails, the stale value of \<open>c\<close> is collected and pushed back as if it had
  been read.
\<close>

section \<open>The function\<close>

fun verifyPatternMatch_from ::
  "cstring \<Rightarrow> char \<Rightarrow> cstring \<Rightarrow> InputBuffer \<Rightarrow> bool \<times> InputBuffer"
where
  "verifyPatternMatch_from [] c collected_chars inp = (True, inp)"
| "verifyPatternMatch_from (expectedChar # s) c collected_chars inp =
     (if EndOfInput inp then (False, UngetString collected_chars inp)
      else (let (c', inp') = GetChar c inp;
                collected_chars' = collected_chars @ [c']
            in if c' \<noteq> expectedChar then (False, UngetString collected_chars' inp')
               else verifyPatternMatch_from s c' collected_chars' inp'))"

definition verifyPatternMatch :: "Uninit \<Rightarrow> cstring \<Rightarrow> InputBuffer \<Rightarrow> bool \<times> InputBuffer" where
  "verifyPatternMatch u s inp = verifyPatternMatch_from s (c_verifyPatternMatch u) [] inp"

section \<open>Characteristic equations\<close>

lemma verifyPatternMatch_from_match:
  "verifyPatternMatch_from s c collected \<lparr>pending = s @ rest, eof = e\<rparr> =
     (True, \<lparr>pending = rest, eof = e\<rparr>)"
  by (induction s arbitrary: c collected) simp_all

text \<open>A difference at a character that is there: everything is pushed back.\<close>

lemma verifyPatternMatch_from_mismatch:
  "x \<noteq> y \<Longrightarrow>
   verifyPatternMatch_from (p @ x # s) c collected \<lparr>pending = p @ y # rest, eof = e\<rparr> =
     (False, \<lparr>pending = collected @ p @ y # rest, eof = e\<rparr>)"
  by (induction p arbitrary: c collected) simp_all

text \<open>The input ends inside the marker, after the end was seen before: everything
  is pushed back.\<close>

lemma verifyPatternMatch_from_short_seen:
  "verifyPatternMatch_from (p @ x # s) c collected \<lparr>pending = p, eof = True\<rparr> =
     (False, \<lparr>pending = collected @ p, eof = True\<rparr>)"
  by (induction p arbitrary: c collected) simp_all

text \<open>The input ends inside the marker and the end was not seen before: the fetch
  fails, the value that \<open>c\<close> still holds is taken for a character of the input,
  and it is pushed back with the others unless it happens to be the expected
  one. \<open>stale c p\<close> is that value.\<close>

definition stale :: "char \<Rightarrow> cstring \<Rightarrow> char" where
  "stale c p = (if p = [] then c else last p)"

lemma stale_simps [simp]: "stale c [] = c" "stale c (x # p) = stale x p"
  by (simp_all add: stale_def)

lemma verifyPatternMatch_from_short_fresh:
  "stale c p \<noteq> x \<Longrightarrow>
   verifyPatternMatch_from (p @ x # s) c collected \<lparr>pending = p, eof = False\<rparr> =
     (False, \<lparr>pending = collected @ p @ [stale c p], eof = True\<rparr>)"
  by (induction p arbitrary: c collected) simp_all

lemma verifyPatternMatch_from_short_fresh_stale:
  "verifyPatternMatch_from (p @ stale c p # s) c collected \<lparr>pending = p, eof = False\<rparr> =
     verifyPatternMatch_from s (stale c p) (collected @ p @ [stale c p])
       \<lparr>pending = [], eof = True\<rparr>"
  by (induction p arbitrary: c collected) simp_all

section \<open>Markers and pending input\<close>

text \<open>Either the pending input starts with the marker, or the two differ at some
  position, or the input is a proper prefix of the marker.\<close>

lemma marker_cases:
  obtains (match) rest where "inp = s @ rest"
  | (mismatch) p x t y rest where "s = p @ x # t" "inp = p @ y # rest" "x \<noteq> y"
  | (short) x t where "s = inp @ x # t"
proof (induction s arbitrary: inp thesis)
  case Nil
  then show ?case by simp
next
  case (Cons a s)
  show ?case
  proof (cases inp)
    case Nil
    then show ?thesis using Cons.prems(3) [of a s] by simp
  next
    case (Cons b inp')
    show ?thesis
    proof (cases "a = b")
      case False
      then show ?thesis
        using Cons.prems(2) [of "[]" a s b inp'] \<open>inp = b # inp'\<close> by simp
    next
      case True
      show ?thesis
      proof (rule Cons.IH [of inp'])
        fix rest assume "inp' = s @ rest"
        then show thesis
          using Cons.prems(1) [of rest] True \<open>inp = b # inp'\<close> by simp
      next
        fix p x t y rest
        assume "s = p @ x # t" "inp' = p @ y # rest" "x \<noteq> y"
        then show thesis
          using Cons.prems(2) [of "a # p" x t y rest] True \<open>inp = b # inp'\<close> by simp
      next
        fix x t assume "s = inp' @ x # t"
        then show thesis
          using Cons.prems(3) [of x t] True \<open>inp = b # inp'\<close> by simp
      qed
    qed
  qed
qed

lemma mismatch_not_prefix: "x \<noteq> y \<Longrightarrow> \<not> prefix (p @ x # t) (p @ y # rest)"
  by (simp add: prefix_def)

lemma short_not_prefix: "\<not> prefix (p @ x # t) p"
  by (auto simp: prefix_def)

section \<open>The contract\<close>

lemma verifyPatternMatch_match [scan_simps]:
  "verifyPatternMatch u s \<lparr>pending = s @ rest, eof = e\<rparr> = (True, \<lparr>pending = rest, eof = e\<rparr>)"
  by (simp add: verifyPatternMatch_def verifyPatternMatch_from_match)

lemma verifyPatternMatch_mismatch [scan_simps]:
  "x \<noteq> y \<Longrightarrow>
   verifyPatternMatch u (p @ x # s) \<lparr>pending = p @ y # rest, eof = e\<rparr> =
     (False, \<lparr>pending = p @ y # rest, eof = e\<rparr>)"
  by (simp add: verifyPatternMatch_def verifyPatternMatch_from_mismatch)

lemma verifyPatternMatch_short_seen [scan_simps]:
  "verifyPatternMatch u (p @ x # s) \<lparr>pending = p, eof = True\<rparr> =
     (False, \<lparr>pending = p, eof = True\<rparr>)"
  by (simp add: verifyPatternMatch_def verifyPatternMatch_from_short_seen)

lemma verifyPatternMatch_short_fresh [scan_simps]:
  "stale (c_verifyPatternMatch u) p \<noteq> x \<Longrightarrow>
   verifyPatternMatch u (p @ x # s) \<lparr>pending = p, eof = False\<rparr> =
     (False, \<lparr>pending = p @ [stale (c_verifyPatternMatch u) p], eof = True\<rparr>)"
  by (simp add: verifyPatternMatch_def verifyPatternMatch_from_short_fresh)

text \<open>A call that does not run into the end of the input returns whether the
  pending input starts with the marker, consumes the marker if it does and
  restores the cursor if it does not.\<close>

lemma verifyPatternMatch_from_short_fresh_eof:
  "eof (snd (verifyPatternMatch_from (p @ x # t) c collected \<lparr>pending = p, eof = False\<rparr>))"
proof (cases "stale c p = x")
  case True
  have "eof (snd (verifyPatternMatch_from t c' collected' \<lparr>pending = [], eof = True\<rparr>))"
    for c' collected'
    by (cases t) simp_all
  with True show ?thesis
    using verifyPatternMatch_from_short_fresh_stale
      [where c = c and p = p and s = t and collected = collected]
    by simp
next
  case False
  then show ?thesis
    by (simp add: verifyPatternMatch_from_short_fresh)
qed

lemma verifyPatternMatch_transaction:
  assumes "verifyPatternMatch u s inp = (b, inp')" and "eof inp' = eof inp"
  shows "b = prefix s (pending inp)"
    and "b \<Longrightarrow> pending inp = s @ pending inp'"
    and "\<not> b \<Longrightarrow> inp' = inp"
proof -
  obtain ps e where inp: "inp = \<lparr>pending = ps, eof = e\<rparr>"
    by (cases inp) simp
  from assms(2) inp have e': "eof inp' = e"
    by simp
  from assms(1) inp have run: "verifyPatternMatch u s \<lparr>pending = ps, eof = e\<rparr> = (b, inp')"
    by simp
  have "b = prefix s ps \<and> (b \<longrightarrow> ps = s @ pending inp')
      \<and> (\<not> b \<longrightarrow> inp' = \<lparr>pending = ps, eof = e\<rparr>)"
  proof (cases rule: marker_cases [where inp = ps and s = s])
    case (match rest)
    from run have "b" and "inp' = \<lparr>pending = rest, eof = e\<rparr>"
      unfolding match by (simp_all add: verifyPatternMatch_match)
    then show ?thesis
      by (simp add: match)
  next
    case (mismatch p x t y rest)
    from run \<open>x \<noteq> y\<close> have "\<not> b" and "inp' = \<lparr>pending = p @ y # rest, eof = e\<rparr>"
      unfolding mismatch(1,2) by (simp_all add: verifyPatternMatch_mismatch)
    then show ?thesis
      using \<open>x \<noteq> y\<close> by (simp add: mismatch(1,2) mismatch_not_prefix)
  next
    case (short x t)
    show ?thesis
    proof (cases e)
      case True
      from run True have "\<not> b" and "inp' = \<lparr>pending = ps, eof = True\<rparr>"
        unfolding short by (simp_all add: verifyPatternMatch_short_seen)
      then show ?thesis
        by (simp add: short True short_not_prefix)
    next
      case False
      from run False have "eof inp'"
        using verifyPatternMatch_from_short_fresh_eof [of ps x t "c_verifyPatternMatch u" "[]"]
        unfolding short verifyPatternMatch_def by simp
      with e' False show ?thesis
        by simp
    qed
  qed
  then show "b = prefix s (pending inp)"
    and "b \<Longrightarrow> pending inp = s @ pending inp'"
    and "\<not> b \<Longrightarrow> inp' = inp"
    unfolding inp by simp_all
qed

lemma verifyPatternMatch_eof_mono [eof_mono]: "eof inp \<Longrightarrow> eof (snd (verifyPatternMatch u s inp))"
proof -
  have "eof inp \<Longrightarrow> eof (snd (verifyPatternMatch_from s c collected inp))" for c collected
    by (induction s arbitrary: c collected inp)
       (auto simp: split_beta Let_def eof_GetChar)
  then show "eof inp \<Longrightarrow> eof (snd (verifyPatternMatch u s inp))"
    by (simp add: verifyPatternMatch_def)
qed

end
