(* ===== verification/Number_Matcher.thy ===== *)
theory Number_Matcher
  imports Scan_Loop Pattern_Match
begin

text \<open>
  The numeric literal matcher of \<^verbatim>\<open>lexer.cc\<close>: the digit classes
  \<^verbatim>\<open>isDigitInBase\<close> and \<^verbatim>\<open>isPositiveDigitInBase\<close>, one attempt at a format with a
  marker (\<^verbatim>\<open>matchToBase\<close>, with its branch for a leading \<open>0\<close> and its branch for
  another leading digit), the plain integer (\<^verbatim>\<open>checkAndReturnNum\<close>), and
  \<^verbatim>\<open>ScanNumber\<close>, which tries the formats of \<^verbatim>\<open>numberTypes\<close> in order and the plain
  integer last.

  The parameters \<^verbatim>\<open>validate_string\<close> and \<^verbatim>\<open>base\<close> of \<^verbatim>\<open>matchToBase\<close> are called
  \<open>marker\<close> and \<open>b\<close> here, since the fields of \<open>NumberType\<close> have their names.
  These functions touch only the cursor, so they are functions on
  \<open>InputBuffer\<close>; \<^verbatim>\<open>ScanNumber\<close> also writes the member \<^verbatim>\<open>tmp\<close> and works on the
  whole state. A function that returns a string and changes the cursor returns
  the pair.
\<close>

section \<open>Digit classes\<close>

definition isDigitInBase :: "char \<Rightarrow> int \<Rightarrow> bool" where
  "isDigitInBase c b =
     (if b \<le> 10 then CHR ''0'' \<le> c \<and> of_char c < of_char (CHR ''0'') + b
      else (CHR ''0'' \<le> c \<and> c \<le> CHR ''9'')
         \<or> (CHR ''A'' \<le> toupper c \<and> of_char (toupper c) < of_char (CHR ''A'') + b - 10))"

definition isPositiveDigitInBase :: "char \<Rightarrow> int \<Rightarrow> bool" where
  "isPositiveDigitInBase c b =
     (if b \<le> 10 then CHR ''1'' \<le> c \<and> of_char c < of_char (CHR ''0'') + b
      else (CHR ''1'' \<le> c \<and> c \<le> CHR ''9'')
         \<or> (CHR ''A'' \<le> toupper c \<and> of_char (toupper c) < of_char (CHR ''A'') + b - 10))"

section \<open>The plain integer\<close>

definition checkAndReturnNum :: "Uninit \<Rightarrow> InputBuffer \<Rightarrow> cstring \<times> InputBuffer" where
  "checkAndReturnNum u inp =
     (let (c, inp) = GetChar (c_checkAndReturnNum u) inp;
          scanned = EMPTYSTRING @ [c]
      in if isdigit c then
           (if c = CHR ''0'' then (scanned, inp)
            else (let (c, inp) = GetChar c inp;
                      (c, scanned, inp) = scan_run isdigit (c, scanned, inp)
                  in (scanned, inp)))
         else (EMPTYSTRING, UngetString scanned inp))"

section \<open>One attempt at a format with a marker\<close>

text \<open>The loop over the zeros after \<open>0.\<close>, which gives the attempt up when it
  fetches a newline: \<open>Inl\<close> is the early return of \<^verbatim>\<open>matchToBase\<close> from inside the
  loop, \<open>Inr\<close> the state in which the loop is left.\<close>

function zero_run ::
  "char \<times> cstring \<times> InputBuffer \<Rightarrow> (cstring \<times> InputBuffer) + (char \<times> cstring \<times> InputBuffer)"
where
  "zero_run (c, scanned, inp) =
     (if \<not> EndOfInput inp \<and> c = CHR ''0''
      then (let (c', inp') = GetChar c inp;
                scanned' = scanned @ [c]
            in if c' = newline then Inl (EMPTYSTRING, UngetString (scanned' @ [c']) inp')
               else zero_run (c', scanned', inp'))
      else Inr (c, scanned, inp))"
  by pat_completeness auto
termination
proof (relation "measure (\<lambda>(c, scanned, inp). fetches_left inp)")
  show "wf (measure (\<lambda>(c, scanned, inp). fetches_left inp))"
    by simp
next
  fix c scanned inp x xa y xb
  assume a: "\<not> EndOfInput inp \<and> c = CHR ''0''" and "x = GetChar c inp" and "(xa, y) = x"
  then have "y = snd (GetChar c inp)"
    by (metis snd_conv)
  with a show "((xa, xb, y), c, scanned, inp) \<in> measure (\<lambda>(c, scanned, inp). fetches_left inp)"
    by (simp add: fetches_left_GetChar)
qed

declare zero_run.simps [simp del]

text \<open>What follows \<open>0.\<close>: zeros and, if the character after them is a positive
  digit, a run of digits. The character after the zeros is pushed back only in
  that last case.\<close>

definition matchToBase_zeros :: "int \<Rightarrow> char \<Rightarrow> cstring \<Rightarrow> InputBuffer \<Rightarrow> cstring \<times> InputBuffer" where
  "matchToBase_zeros b c scanned inp =
     (let (c, inp) = GetChar c inp
      in case zero_run (c, scanned, inp) of
           Inl r \<Rightarrow> r
         | Inr (c, scanned, inp) \<Rightarrow>
             if \<not> EndOfInput inp \<and> isPositiveDigitInBase c b
             then (let (c, scanned, inp) = scan_run (\<lambda>c. isDigitInBase c b) (c, scanned, inp)
                   in (scanned, inp))
             else (scanned, inp))"

text \<open>The branch \<^verbatim>\<open>if (c == '0')\<close>: the marker must follow the zero at once. For a
  marker other than the point the literal is complete.\<close>

definition matchToBase_zero ::
  "Uninit \<Rightarrow> cstring \<Rightarrow> int \<Rightarrow> char \<Rightarrow> cstring \<Rightarrow> InputBuffer \<Rightarrow> cstring \<times> InputBuffer"
where
  "matchToBase_zero u marker b c scanned inp =
     (let (ok, inp) = verifyPatternMatch u marker inp
      in if \<not> ok then (EMPTYSTRING, UngetString scanned inp)
         else (let scanned = scanned @ marker
               in if marker \<noteq> DOTSTRING then (scanned, inp)
                  else matchToBase_zeros b c scanned inp))"

text \<open>What follows the digits and the point: a run of digits that must not be
  empty. The flag \<^verbatim>\<open>after_dot_flag\<close> is set by the first iteration of the loop,
  that is, exactly when the condition of the loop holds on entry. When the run
  is empty control reaches the end of \<^verbatim>\<open>matchToBase\<close>, where everything scanned is
  pushed back.\<close>

definition matchToBase_fraction :: "int \<Rightarrow> char \<Rightarrow> cstring \<Rightarrow> InputBuffer \<Rightarrow> cstring \<times> InputBuffer" where
  "matchToBase_fraction b c scanned inp =
     (let (c, inp) = GetChar c inp;
          after_dot_flag = (\<not> EndOfInput inp \<and> isDigitInBase c b);
          (c, scanned, inp) = scan_run (\<lambda>c. isDigitInBase c b) (c, scanned, inp)
      in if after_dot_flag then (scanned, inp)
         else (EMPTYSTRING, UngetString scanned inp))"

text \<open>The branch \<^verbatim>\<open>if (isPositiveDigitInBase(c, base))\<close>: a run of digits, then the
  marker.\<close>

definition matchToBase_nonzero ::
  "Uninit \<Rightarrow> cstring \<Rightarrow> int \<Rightarrow> char \<Rightarrow> cstring \<Rightarrow> InputBuffer \<Rightarrow> cstring \<times> InputBuffer"
where
  "matchToBase_nonzero u marker b c scanned inp =
     (let (c, inp) = GetChar c inp;
          (c, scanned, inp) = scan_run (\<lambda>c. isDigitInBase c b) (c, scanned, inp);
          (ok, inp) = verifyPatternMatch u marker inp
      in if \<not> ok then (EMPTYSTRING, UngetString scanned inp)
         else (let scanned = scanned @ marker
               in if marker \<noteq> DOTSTRING then (scanned, inp)
                  else matchToBase_fraction b c scanned inp))"

definition matchToBase :: "Uninit \<Rightarrow> cstring \<Rightarrow> int \<Rightarrow> InputBuffer \<Rightarrow> cstring \<times> InputBuffer" where
  "matchToBase u marker b inp =
     (let (c, inp) = GetChar (c_matchToBase u) inp;
          scanned = EMPTYSTRING @ [c]
      in if c = CHR ''0'' then matchToBase_zero u marker b c scanned inp
         else if isPositiveDigitInBase c b
              then matchToBase_nonzero u marker b c scanned inp
              else (EMPTYSTRING, UngetString scanned inp))"

section \<open>All formats in order\<close>

text \<open>The loop \<^verbatim>\<open>for (i = 0; i < NUMTYPE_COUNT; i++)\<close> over \<^verbatim>\<open>numberTypes\<close>, as a
  recursion over the entries left; \<open>Some\<close> is the \<^verbatim>\<open>return tmp\<close> inside the loop.\<close>

fun ScanNumber_types ::
  "Uninit \<Rightarrow> NumberType list \<Rightarrow> LexicalAnalyzer \<Rightarrow> Token option \<times> LexicalAnalyzer"
where
  "ScanNumber_types u [] L = (None, L)"
| "ScanNumber_types u (numberType # types) L =
     (let (lexeme, inp) =
            matchToBase u (validate_string numberType) (base numberType) (input L);
          L = L\<lparr>input := inp\<rparr>
      in if lexeme \<noteq> []
         then (let L = L\<lparr>tmp := (tmp L)\<lparr>lexeme := lexeme, token_type := tokenType numberType\<rparr>\<rparr>
               in (Some (tmp L), L))
         else ScanNumber_types u types L)"

definition ScanNumber :: "Uninit \<Rightarrow> LexicalAnalyzer \<Rightarrow> Token \<times> LexicalAnalyzer" where
  "ScanNumber u L =
     (let L = L\<lparr>tmp := \<lparr>lexeme = EMPTYSTRING, token_type = ERROR, Token.line_no = line_no L\<rparr>\<rparr>
      in case ScanNumber_types u numberTypes L of
           (Some t, L) \<Rightarrow> (t, L)
         | (None, L) \<Rightarrow>
             (let (lexeme, inp) = checkAndReturnNum u (input L);
                  L = L\<lparr>input := inp\<rparr>
              in if lexeme \<noteq> []
                 then (let L = L\<lparr>tmp := (tmp L)\<lparr>lexeme := lexeme, token_type := NUM\<rparr>\<rparr>
                       in (tmp L, L))
                 else (tmp L, L)))"

section \<open>Digit classes: facts\<close>

lemma of_char_int_nat: "(of_char c :: int) = int (of_char c)"
  by (simp add: of_char_def)

lemma isDigitInBase_10: "isDigitInBase c 10 \<longleftrightarrow> isdigit c"
  by (auto simp: isDigitInBase_def isdigit_def char_le_code of_char_int_nat)

lemma isPositiveDigitInBase_imp_digit: "isPositiveDigitInBase c b \<Longrightarrow> isDigitInBase c b"
  by (auto simp: isPositiveDigitInBase_def isDigitInBase_def char_le_code split: if_splits)

lemma isPositiveDigitInBase_not_zero: "isPositiveDigitInBase c b \<Longrightarrow> c \<noteq> CHR ''0''"
  by (auto simp: isPositiveDigitInBase_def char_le_code toupper_def islower_def
      split: if_splits)

lemma isDigitInBase_iff_positive:
  "isDigitInBase c b \<longleftrightarrow> isPositiveDigitInBase c b \<or> (c = CHR ''0'' \<and> 0 < b)"
proof (cases "c = CHR ''0''")
  case True
  then show ?thesis
    by (simp add: isPositiveDigitInBase_def isDigitInBase_def char_le_code
        toupper_def islower_def)
next
  case False
  then have "(of_char c :: nat) \<noteq> 48"
    using of_char_eq_iff [of c "CHR ''0''", where ?'a = nat] by simp
  then show ?thesis
    using False
    by (auto simp: isPositiveDigitInBase_def isDigitInBase_def char_le_code)
qed

lemma not_digit_point [simp]: "\<not> isDigitInBase (CHR ''.'') b"
  by (simp add: isDigitInBase_def char_le_code toupper_def islower_def)

lemma not_digit_newline [simp]: "\<not> isDigitInBase newline b"
  by (simp add: isDigitInBase_def char_le_code toupper_def islower_def)

lemma not_digit_x [simp]: "b \<le> 33 \<Longrightarrow> \<not> isDigitInBase (CHR ''x'') b"
  by (simp add: isDigitInBase_def char_le_code of_char_toupper islower_def of_char_int_nat)

lemma not_positive_digit [simp]: "\<not> isDigitInBase c b \<Longrightarrow> \<not> isPositiveDigitInBase c b"
  using isPositiveDigitInBase_imp_digit by blast

lemma isdigit_not_point [simp]: "\<not> isdigit (CHR ''.'')" "\<not> isdigit (CHR ''x'')" "\<not> isdigit newline"
  by (simp_all add: isdigit_def char_le_code)

lemma isdigit_zero [simp]: "isdigit (CHR ''0'')"
  by (simp add: isdigit_def)

section \<open>The loop over zeros\<close>

abbreviation is_zero :: "char \<Rightarrow> bool" where
  "is_zero \<equiv> (\<lambda>c. c = CHR ''0'')"

lemma zero_run_stop [scan_simps]:
  "EndOfInput inp \<or> c \<noteq> CHR ''0'' \<Longrightarrow> zero_run (c, scanned, inp) = Inr (c, scanned, inp)"
  by (subst zero_run.simps) auto

lemma zero_run_Cons [scan_simps]:
  "zero_run (CHR ''0'', scanned, \<lparr>pending = x # xs, eof = e\<rparr>) =
     (if x = newline
      then Inl (EMPTYSTRING, \<lparr>pending = scanned @ CHR ''0'' # newline # xs, eof = e\<rparr>)
      else zero_run (x, scanned @ [CHR ''0''], \<lparr>pending = xs, eof = e\<rparr>))"
  by (subst zero_run.simps) simp

lemma zero_run_Nil [scan_simps]:
  "zero_run (CHR ''0'', scanned, \<lparr>pending = [], eof = False\<rparr>) =
     Inr (CHR ''0'', scanned @ [CHR ''0''], \<lparr>pending = [], eof = True\<rparr>)"
  by (subst zero_run.simps) (simp add: zero_run_stop)

text \<open>On a cursor that has not seen the end, starting from a fetched character
  \<open>c\<close>: the zeros at the front of \<open>c # s\<close> are collected; a newline right after
  at least one zero ends the attempt with everything pushed back.\<close>

lemma zero_run_fresh:
  "zero_run (c, scanned, \<lparr>pending = s, eof = False\<rparr>) =
     (if c \<noteq> CHR ''0'' then Inr (c, scanned, \<lparr>pending = s, eof = False\<rparr>)
      else if dropWhile is_zero s = []
      then Inr (CHR ''0'', scanned @ c # s, \<lparr>pending = [], eof = True\<rparr>)
      else if hd (dropWhile is_zero s) = newline
      then Inl (EMPTYSTRING, \<lparr>pending = scanned @ c # s, eof = False\<rparr>)
      else Inr (hd (dropWhile is_zero s), scanned @ c # takeWhile is_zero s,
                \<lparr>pending = tl (dropWhile is_zero s), eof = False\<rparr>))"
proof (induction s arbitrary: c scanned)
  case Nil
  then show ?case
    by (simp add: scan_simps)
next
  case (Cons x xs)
  show ?case
  proof (cases "c = CHR ''0''")
    case False
    then show ?thesis by (simp add: scan_simps)
  next
    case True
    show ?thesis
    proof (cases "x = CHR ''0''")
      case True
      show ?thesis
        unfolding True \<open>c = CHR ''0''\<close>
        by (simp add: zero_run_Cons Cons.IH [of "CHR ''0''" "scanned @ [CHR ''0'']"])
    next
      case False
      then show ?thesis
        unfolding \<open>c = CHR ''0''\<close>
        by (simp add: zero_run_Cons zero_run_stop EMPTYSTRING_def)
    qed
  qed
qed

section \<open>The steps of an attempt on a cursor that has not seen the end\<close>

text \<open>After \<open>0.\<close>: with \<open>zs\<close> the zeros at the front of the pending input \<open>t\<close> and \<open>r\<close>
  what follows them.\<close>

lemma matchToBase_zeros_fresh:
  "matchToBase_zeros b c scanned \<lparr>pending = t, eof = False\<rparr> =
     (case dropWhile is_zero t of
        [] \<Rightarrow> (scanned @ t, \<lparr>pending = [], eof = True\<rparr>)
      | y # ys \<Rightarrow>
          if takeWhile is_zero t \<noteq> [] \<and> y = newline
          then (EMPTYSTRING, \<lparr>pending = scanned @ t, eof = False\<rparr>)
          else if isPositiveDigitInBase y b
          then (scanned @ takeWhile is_zero t @ takeWhile (\<lambda>c. isDigitInBase c b) (y # ys),
                \<lparr>pending = dropWhile (\<lambda>c. isDigitInBase c b) (y # ys),
                 eof = (dropWhile (\<lambda>c. isDigitInBase c b) (y # ys) = [])\<rparr>)
          else (scanned @ takeWhile is_zero t, \<lparr>pending = ys, eof = False\<rparr>))"
proof (cases t)
  case Nil
  then show ?thesis
    by (simp add: matchToBase_zeros_def zero_run_stop)
next
  case (Cons x xs)
  show ?thesis
  proof (cases "x = CHR ''0''")
    case False
    with Cons show ?thesis
      by (simp add: matchToBase_zeros_def zero_run_stop scan_run_fresh
          isPositiveDigitInBase_imp_digit)
  next
    case True
    have split: "takeWhile is_zero xs @ dropWhile is_zero xs = xs"
      by simp
    show ?thesis
    proof (cases "dropWhile is_zero xs")
      case Nil
      with split have "takeWhile is_zero xs = xs"
        by simp
      with Nil Cons True show ?thesis
        by (simp add: matchToBase_zeros_def zero_run_fresh del: dropWhile_eq_Nil_conv)
    next
      case inner: (Cons y ys)
      with Cons True show ?thesis
        by (simp add: matchToBase_zeros_def zero_run_fresh scan_run_fresh EMPTYSTRING_def
            isPositiveDigitInBase_imp_digit)
    qed
  qed
qed

text \<open>After the digits and the point: the run of digits at the front of \<open>t\<close>, which
  must not be empty.\<close>

lemma matchToBase_fraction_fresh:
  "matchToBase_fraction b c scanned \<lparr>pending = t, eof = False\<rparr> =
     (if takeWhile (\<lambda>c. isDigitInBase c b) t \<noteq> []
      then (scanned @ takeWhile (\<lambda>c. isDigitInBase c b) t,
            \<lparr>pending = dropWhile (\<lambda>c. isDigitInBase c b) t,
             eof = (dropWhile (\<lambda>c. isDigitInBase c b) t = [])\<rparr>)
      else (EMPTYSTRING, \<lparr>pending = scanned @ t, eof = (t = [])\<rparr>))"
proof (cases t)
  case Nil
  then show ?thesis
    by (simp add: matchToBase_fraction_def scan_run_end EMPTYSTRING_def)
next
  case (Cons x xs)
  then show ?thesis
    by (simp add: matchToBase_fraction_def scan_run_fresh EMPTYSTRING_def)
qed

text \<open>The digits of the three bases of \<^verbatim>\<open>numberTypes\<close>, character by character.\<close>

lemma octal_digits: "isDigitInBase c 8 \<longleftrightarrow> c \<in> set ''01234567''"
  unfolding isDigitInBase_def by (simp add: char_le_code char_eq_code of_char_int_nat) arith

lemma decimal_digits: "isDigitInBase c 10 \<longleftrightarrow> c \<in> set ''0123456789''"
  unfolding isDigitInBase_def by (simp add: char_le_code char_eq_code of_char_int_nat) arith

lemma hex_digits: "isDigitInBase c 16 \<longleftrightarrow> c \<in> set ''0123456789ABCDEFabcdef''"
  unfolding isDigitInBase_def
  by (simp add: char_le_code char_eq_code of_char_int_nat of_char_toupper islower_def) arith

lemma positive_digits: "isPositiveDigitInBase c b \<longleftrightarrow> isDigitInBase c b \<and> c \<noteq> CHR ''0''"
  using isDigitInBase_iff_positive [of c b] isPositiveDigitInBase_not_zero [of c b] by blast

section \<open>The end flag is never cleared\<close>

lemma zero_run_eof_mono:
  "eof inp \<Longrightarrow>
   (case zero_run (c, scanned, inp) of
      Inl (l, inp') \<Rightarrow> eof inp'
    | Inr (c', scanned', inp') \<Rightarrow> eof inp')"
proof (induction "fetches_left inp" arbitrary: c scanned inp rule: less_induct)
  case less
  show ?case
  proof (cases "\<not> EndOfInput inp \<and> c = CHR ''0''")
    case False
    with less.prems show ?thesis
      by (simp add: zero_run_stop)
  next
    case True
    then have "fetches_left (snd (GetChar c inp)) < fetches_left inp"
      by (simp add: fetches_left_GetChar)
    from less.hyps [OF this, of "fst (GetChar c inp)" "scanned @ [c]"] less.prems True
    show ?thesis
      by (subst zero_run.simps) (simp add: split_beta Let_def eof_GetChar_mono)
  qed
qed

lemma matchToBase_zeros_eof_mono [eof_mono]:
  "eof inp \<Longrightarrow> eof (snd (matchToBase_zeros b c scanned inp))"
  using zero_run_eof_mono [of "snd (GetChar c inp)" "fst (GetChar c inp)" scanned]
  by (auto simp: matchToBase_zeros_def split_beta eof_GetChar_mono scan_run_eof_mono
      split: sum.splits)

lemma matchToBase_fraction_eof_mono [eof_mono]:
  "eof inp \<Longrightarrow> eof (snd (matchToBase_fraction b c scanned inp))"
  by (simp add: matchToBase_fraction_def split_beta Let_def eof_GetChar_mono scan_run_eof_mono)

lemma matchToBase_zero_eof_mono [eof_mono]:
  "eof inp \<Longrightarrow> eof (snd (matchToBase_zero u marker b c scanned inp))"
  by (simp add: matchToBase_zero_def split_beta Let_def eof_mono)

lemma matchToBase_nonzero_eof_mono [eof_mono]:
  "eof inp \<Longrightarrow> eof (snd (matchToBase_nonzero u marker b c scanned inp))"
  by (simp add: matchToBase_nonzero_def split_beta Let_def eof_GetChar_mono eof_mono)

text \<open>An attempt on a cursor with nothing pending ends with the flag set, too:
  its first fetch sets it.\<close>

lemma matchToBase_eof_mono [eof_mono]:
  "eof inp \<or> pending inp = [] \<Longrightarrow> eof (snd (matchToBase u marker b inp))"
  by (simp add: matchToBase_def split_beta Let_def eof_GetChar eof_mono)

lemma checkAndReturnNum_eof_mono [eof_mono]:
  "eof inp \<or> pending inp = [] \<Longrightarrow> eof (snd (checkAndReturnNum u inp))"
  by (simp add: checkAndReturnNum_def split_beta Let_def eof_GetChar eof_GetChar_mono eof_mono)

lemma ScanNumber_types_eof_mono [eof_mono]:
  "eof (input L) \<Longrightarrow> eof (input (snd (ScanNumber_types u types L)))"
  by (induction types arbitrary: L) (simp_all add: split_beta Let_def eof_mono)

lemma ScanNumber_eof_mono [eof_mono]:
  "eof (input L) \<Longrightarrow> eof (input (snd (ScanNumber u L)))"
proof -
  assume "eof (input L)"
  then have "eof (input (snd (ScanNumber_types u numberTypes
      (L\<lparr>tmp := \<lparr>lexeme = EMPTYSTRING, token_type = ERROR, Token.line_no = line_no L\<rparr>\<rparr>))))"
    by (simp add: eof_mono)
  then show ?thesis
    by (simp add: ScanNumber_def split_beta Let_def eof_mono split: option.split)
qed

section \<open>What the scanner of numbers leaves alone\<close>

lemma ScanNumber_types_frame [simp]:
  "tokens (snd (ScanNumber_types u types L)) = tokens L"
  "line_no (snd (ScanNumber_types u types L)) = line_no L"
  by (induction types arbitrary: L; simp add: split_beta Let_def)+

lemma ScanNumber_frame [simp]:
  "tokens (snd (ScanNumber u L)) = tokens L"
  "line_no (snd (ScanNumber u L)) = line_no L"
proof -
  let ?L = "L\<lparr>tmp := \<lparr>lexeme = EMPTYSTRING, token_type = ERROR, Token.line_no = line_no L\<rparr>\<rparr>"
  have "tokens (snd (ScanNumber_types u numberTypes ?L)) = tokens L"
    and "line_no (snd (ScanNumber_types u numberTypes ?L)) = line_no L"
    by simp_all
  then show "tokens (snd (ScanNumber u L)) = tokens L"
    and "line_no (snd (ScanNumber u L)) = line_no L"
    by (simp_all add: ScanNumber_def split_beta Let_def split: option.split)
qed

section \<open>Evaluation on concrete texts\<close>

text \<open>Facts that let \<open>simp\<close> decide the digit classes of concrete characters and
  unfold the initial state.\<close>

lemmas digit_eval =
  isPositiveDigitInBase_def isDigitInBase_def isdigit_def char_le_code new_LexicalAnalyzer_def
  cursor_of_def string_consts


text \<open>The line number of the token is the value of the counter at the call.\<close>

lemma ScanNumber_types_stamp:
  "Token.line_no (tmp (snd (ScanNumber_types u types L))) = Token.line_no (tmp L)"
  "fst (ScanNumber_types u types L) = Some t \<Longrightarrow> Token.line_no t = Token.line_no (tmp L)"
  by (induction types arbitrary: L) (auto simp: split_beta Let_def split: if_splits)

lemma ScanNumber_stamp [simp]: "Token.line_no (fst (ScanNumber u L)) = line_no L"
proof -
  let ?L = "L\<lparr>tmp := \<lparr>lexeme = EMPTYSTRING, token_type = ERROR, Token.line_no = line_no L\<rparr>\<rparr>"
  show ?thesis
    using ScanNumber_types_stamp [of u numberTypes ?L]
    by (cases "ScanNumber_types u numberTypes ?L")
       (auto simp: ScanNumber_def Let_def split_beta split: option.splits)
qed

end
