(* ===== verification/Ident_Scanner.thy ===== *)
theory Ident_Scanner
  imports Scan_Loop Token_Table
begin

text \<open>
  \<^verbatim>\<open>LexicalAnalyzer::ScanIdOrKeyword\<close>: a maximal run of letters and digits that
  starts with a letter, collected in \<^verbatim>\<open>tmp.lexeme\<close> and classified with the keyword
  table. When the first character is not a letter it is pushed back and the
  token is an error token, whose line number is whatever \<^verbatim>\<open>tmp\<close> held before.
\<close>

section \<open>The function\<close>

definition ScanIdOrKeyword :: "Uninit \<Rightarrow> LexicalAnalyzer \<Rightarrow> Token \<times> LexicalAnalyzer" where
  "ScanIdOrKeyword u L =
     (let (c, inp) = GetChar (c_ScanIdOrKeyword u) (input L)
      in if isalpha c
         then (let (c, lexeme', inp) = scan_run isalnum (c, EMPTYSTRING, inp);
                   L = L\<lparr>input := inp,
                         tmp := (tmp L)\<lparr>lexeme := lexeme', Token.line_no := line_no L\<rparr>\<rparr>;
                   L = (if IsKeyword (lexeme (tmp L))
                        then L\<lparr>tmp := (tmp L)\<lparr>token_type := FindKeywordIndex (lexeme (tmp L))\<rparr>\<rparr>
                        else L\<lparr>tmp := (tmp L)\<lparr>token_type := ID\<rparr>\<rparr>)
               in (tmp L, L))
         else (let inp = unget_unless_eof c inp;
                   L = L\<lparr>input := inp,
                         tmp := (tmp L)\<lparr>lexeme := EMPTYSTRING, token_type := ERROR\<rparr>\<rparr>
               in (tmp L, L)))"

section \<open>Keywords\<close>

lemma FindKeywordIndex_simps [simp]:
  "FindKeywordIndex ''IF'' = IF"
  "FindKeywordIndex ''WHILE'' = WHILE"
  "FindKeywordIndex ''DO'' = DO"
  "FindKeywordIndex ''THEN'' = THEN"
  "FindKeywordIndex ''PRINT'' = PRINT"
  by (simp_all add: FindKeywordIndex_def KEYWORDS_COUNT_def keyword_def
      TokenType_of_int_def token_types_def numeral_eq_Suc)

lemma FindKeywordIndex_not_keyword: "\<not> IsKeyword s \<Longrightarrow> FindKeywordIndex s = ERROR"
  by (simp add: IsKeyword_def FindKeywordIndex_def FindKeywordIndex_from_ERROR)

lemma IsKeyword_cases:
  "IsKeyword s \<longleftrightarrow> s = ''IF'' \<or> s = ''WHILE'' \<or> s = ''DO'' \<or> s = ''THEN'' \<or> s = ''PRINT''"
  by (auto simp: IsKeyword_iff keyword_def)

text \<open>The kind of a keyword is one of \<open>IF\<close> to \<open>PRINT\<close>, and its name in the table
  \<^verbatim>\<open>reserved\<close> is the keyword.\<close>

lemma keyword_name:
  assumes "IsKeyword s"
  shows "reserved ! int_of_TokenType (FindKeywordIndex s) = s"
  using assms unfolding IsKeyword_cases
  by (elim disjE) (simp_all add: reserved_def)

lemma FindKeywordIndex_range:
  assumes "IsKeyword s"
  shows "IF \<le> FindKeywordIndex s \<and> FindKeywordIndex s \<le> PRINT"
  using assms unfolding IsKeyword_cases
  by (elim disjE) (simp_all add: less_eq_TokenType_def)

section \<open>The function on a cursor that has not seen the end\<close>

text \<open>The kind of a word: the keyword it is, or an identifier.\<close>

definition word_kind :: "cstring \<Rightarrow> TokenType" where
  "word_kind s = (if IsKeyword s then FindKeywordIndex s else ID)"

lemma word_kind_simps [simp]:
  "word_kind ''IF'' = IF" "word_kind ''WHILE'' = WHILE" "word_kind ''DO'' = DO"
  "word_kind ''THEN'' = THEN" "word_kind ''PRINT'' = PRINT"
  by (simp_all add: word_kind_def IsKeyword_cases)

lemma word_kind_ID: "s \<notin> set keyword \<Longrightarrow> word_kind s = ID"
  by (simp add: word_kind_def IsKeyword_iff)

text \<open>A letter \<open>c\<close> followed by \<open>t\<close>: the lexeme is \<open>c\<close> and the letters and digits at the
  front of \<open>t\<close>, whether or not the input ends there; the token is complete in
  all three fields.\<close>

lemma ScanIdOrKeyword_fresh:
  assumes "isalpha c" and "input L = \<lparr>pending = c # t, eof = False\<rparr>"
  shows "ScanIdOrKeyword u L =
     (let lx = c # takeWhile isalnum t;
          tok = \<lparr>lexeme = lx, token_type = word_kind lx, Token.line_no = line_no L\<rparr>
      in (tok, L\<lparr>tmp := tok,
                  input := \<lparr>pending = dropWhile isalnum t,
                            eof = (dropWhile isalnum t = [])\<rparr>\<rparr>))"
  using assms
  by (cases L)
     (simp add: ScanIdOrKeyword_def split_beta Let_def scan_run_fresh EMPTYSTRING_def
       word_kind_def del: dropWhile_eq_Nil_conv)

text \<open>Not a letter: the character goes back and the token is an error token that
  keeps the line number \<^verbatim>\<open>tmp\<close> had.\<close>

lemma ScanIdOrKeyword_other:
  assumes "\<not> isalpha c" and "input L = \<lparr>pending = c # t, eof = False\<rparr>"
  shows "ScanIdOrKeyword u L =
     ((tmp L)\<lparr>lexeme := EMPTYSTRING, token_type := ERROR\<rparr>,
      L\<lparr>tmp := (tmp L)\<lparr>lexeme := EMPTYSTRING, token_type := ERROR\<rparr>\<rparr>)"
  using assms by (cases L) (simp add: ScanIdOrKeyword_def Let_def)

section \<open>Frame properties\<close>

lemma ScanIdOrKeyword_eof_mono [eof_mono]:
  "eof (input L) \<Longrightarrow> eof (input (snd (ScanIdOrKeyword u L)))"
  by (simp add: ScanIdOrKeyword_def split_beta Let_def eof_GetChar_mono scan_run_eof_mono)

lemma ScanIdOrKeyword_frame [simp]:
  "tokens (snd (ScanIdOrKeyword u L)) = tokens L"
  "line_no (snd (ScanIdOrKeyword u L)) = line_no L"
  by (simp_all add: ScanIdOrKeyword_def split_beta Let_def)


lemma ScanIdOrKeyword_stamp:
  "Token.line_no (tmp L) = line_no L \<Longrightarrow> Token.line_no (fst (ScanIdOrKeyword u L)) = line_no L"
  by (simp add: ScanIdOrKeyword_def split_beta Let_def)

end
