(* ===== verification/Space_Skipper.thy ===== *)
theory Space_Skipper
  imports Token_Table
begin

text \<open>
  \<^verbatim>\<open>LexicalAnalyzer::SkipSpace\<close>: fetch characters while they are white space,
  count a line for every fetch after which \<open>c\<close> is a newline, push the first
  other character back, and report whether any white space was skipped. The
  loop keeps the character, the line counter, the flag and the cursor; the
  counter is incremented after every fetch, also after one that fails and leaves
  the previous character in \<open>c\<close>.
\<close>

section \<open>The function\<close>

function SkipSpace_loop :: "char \<times> int \<times> bool \<times> InputBuffer \<Rightarrow> char \<times> int \<times> bool \<times> InputBuffer" where
  "SkipSpace_loop (c, ln, space_encountered, inp) =
     (if \<not> EndOfInput inp \<and> isspace c
      then (let (c', inp') = GetChar c inp
            in SkipSpace_loop (c', ln + (if c' = newline then 1 else 0), True, inp'))
      else (c, ln, space_encountered, inp))"
  by pat_completeness auto
termination
proof (relation "measure (\<lambda>(c, ln, space_encountered, inp). fetches_left inp)")
  show "wf (measure (\<lambda>(c, ln, space_encountered, inp). fetches_left inp))"
    by simp
next
  fix c ln space_encountered inp x xa y
  assume a: "\<not> EndOfInput inp \<and> isspace c" and "x = GetChar c inp" and "(xa, y) = x"
  then have "y = snd (GetChar c inp)"
    by (metis snd_conv)
  with a show "((xa, ln + (if xa = newline then 1 else 0), True, y), c, ln, space_encountered, inp)
      \<in> measure (\<lambda>(c, ln, space_encountered, inp). fetches_left inp)"
    by (simp add: fetches_left_GetChar)
qed

declare SkipSpace_loop.simps [simp del]

definition SkipSpace :: "Uninit \<Rightarrow> LexicalAnalyzer \<Rightarrow> bool \<times> LexicalAnalyzer" where
  "SkipSpace u L =
     (let (c, inp) = GetChar (c_SkipSpace u) (input L);
          ln = line_no L + (if c = newline then 1 else 0);
          (c, ln, space_encountered, inp) = SkipSpace_loop (c, ln, False, inp);
          inp = unget_unless_eof c inp
      in (space_encountered, L\<lparr>line_no := ln, input := inp\<rparr>))"

section \<open>Unfolding\<close>

lemma SkipSpace_loop_stop [scan_simps]:
  "EndOfInput inp \<or> \<not> isspace c \<Longrightarrow> SkipSpace_loop (c, ln, sp, inp) = (c, ln, sp, inp)"
  by (subst SkipSpace_loop.simps) auto

lemma SkipSpace_loop_step [scan_simps]:
  "\<not> EndOfInput inp \<Longrightarrow> isspace c \<Longrightarrow>
   SkipSpace_loop (c, ln, sp, inp) =
     SkipSpace_loop (fst (GetChar c inp),
       ln + (if fst (GetChar c inp) = newline then 1 else 0), True, snd (GetChar c inp))"
  by (subst SkipSpace_loop.simps) (simp add: split_beta)

section \<open>The loop on a cursor that has not seen the end\<close>

text \<open>The number of newlines in a string, as the amount added to the line counter.\<close>

definition newlines :: "cstring \<Rightarrow> int" where
  "newlines s = int (length (filter (\<lambda>c. c = newline) s))"

lemma newlines_simps [simp]:
  "newlines [] = 0"
  "newlines (c # s) = (if c = newline then 1 else 0) + newlines s"
  "newlines (s @ t) = newlines s + newlines t"
  by (simp_all add: newlines_def)

lemma newlines_nonneg [simp]: "0 \<le> newlines s"
  by (simp add: newlines_def)

lemma not_isspace_newline [simp]: "\<not> isspace c \<Longrightarrow> c \<noteq> newline"
  by auto

text \<open>Starting from a fetched white-space character \<open>c\<close> with \<open>s\<close> pending: the loop
  takes the white space at the front of \<open>s\<close> and the character after it. When
  \<open>s\<close> is all white space, the last fetch fails, \<open>c\<close> keeps the last character, and
  a newline there is counted a second time.\<close>

lemma SkipSpace_loop_fresh:
  "isspace c \<Longrightarrow>
   SkipSpace_loop (c, ln, sp, \<lparr>pending = s, eof = False\<rparr>) =
     (if dropWhile isspace s = []
      then (last (c # s), ln + newlines s + (if last (c # s) = newline then 1 else 0), True,
            \<lparr>pending = [], eof = True\<rparr>)
      else (hd (dropWhile isspace s), ln + newlines (takeWhile isspace s), True,
            \<lparr>pending = tl (dropWhile isspace s), eof = False\<rparr>))"
proof (induction s arbitrary: c ln sp)
  case Nil
  then show ?case
    by (simp add: SkipSpace_loop_step SkipSpace_loop_stop)
next
  case (Cons x xs)
  show ?case
  proof (cases "isspace x")
    case True
    from Cons.IH [OF True, of "ln + (if x = newline then 1 else 0)" True] Cons.prems True
    show ?thesis
      by (simp add: SkipSpace_loop_step del: dropWhile_eq_Nil_conv)
  next
    case False
    with Cons.prems show ?thesis
      by (simp add: SkipSpace_loop_step SkipSpace_loop_stop)
  qed
qed

section \<open>The function on a cursor that has not seen the end\<close>

text \<open>White space \<open>ws\<close> followed by another character: the cursor stops in front of
  that character and every newline of \<open>ws\<close> is counted once.\<close>

lemma SkipSpace_fresh:
  assumes "list_all isspace ws" and "\<not> isspace x"
    and "input L = \<lparr>pending = ws @ x # r, eof = False\<rparr>"
  shows "SkipSpace u L =
     (ws \<noteq> [], L\<lparr>line_no := line_no L + newlines ws,
                     input := \<lparr>pending = x # r, eof = False\<rparr>\<rparr>)"
proof (cases ws)
  case Nil
  with assms show ?thesis
    by (simp add: SkipSpace_def SkipSpace_loop_stop)
next
  case (Cons w ws')
  with assms have "isspace w" and "list_all isspace ws'"
    by simp_all
  with assms(2,3) Cons show ?thesis
    by (simp add: SkipSpace_def SkipSpace_loop_fresh)
qed

text \<open>White space up to the end of the input: the cursor ends at the end, and the
  line counter has advanced by the newlines of \<open>ws\<close>, plus one if \<open>ws\<close> ends in a
  newline.\<close>

lemma SkipSpace_only:
  assumes "list_all isspace ws" and "ws \<noteq> []"
    and "input L = \<lparr>pending = ws, eof = False\<rparr>"
  shows "SkipSpace u L =
     (True, L\<lparr>line_no := line_no L + newlines ws + (if last ws = newline then 1 else 0),
               input := \<lparr>pending = [], eof = True\<rparr>\<rparr>)"
proof (cases ws)
  case Nil
  with assms show ?thesis
    by simp
next
  case (Cons w ws')
  with assms have "isspace w" and "list_all isspace ws'"
    by simp_all
  with assms(3) Cons show ?thesis
    by (simp add: SkipSpace_def SkipSpace_loop_fresh)
qed

text \<open>Nothing pending: the fetch fails, and the function tests the value that its
  variable \<open>c\<close> had before it was ever assigned.\<close>

lemma SkipSpace_end:
  assumes "pending (input L) = []"
  shows "SkipSpace u L =
     (False, L\<lparr>line_no := line_no L + (if c_SkipSpace u = newline then 1 else 0),
                input := \<lparr>pending = [], eof = True\<rparr>\<rparr>)"
proof -
  obtain e where "input L = \<lparr>pending = [], eof = e\<rparr>"
    using assms by (cases "input L") simp
  then show ?thesis
    by (simp add: SkipSpace_def SkipSpace_loop_stop GetChar_def)
qed

section \<open>Frame properties\<close>

lemma SkipSpace_loop_frame:
  "(eof inp \<longrightarrow> eof (snd (snd (snd (SkipSpace_loop (c, ln, sp, inp))))))
   \<and> ln \<le> fst (snd (SkipSpace_loop (c, ln, sp, inp)))"
proof (induction "fetches_left inp" arbitrary: c ln sp inp rule: less_induct)
  case less
  show ?case
  proof (cases "\<not> EndOfInput inp \<and> isspace c")
    case False
    then show ?thesis
      by (simp add: SkipSpace_loop_stop)
  next
    case True
    then have "fetches_left (snd (GetChar c inp)) < fetches_left inp"
      by (simp add: fetches_left_GetChar)
    from less.hyps [OF this, of "fst (GetChar c inp)"
        "ln + (if fst (GetChar c inp) = newline then 1 else 0)" True] True
    show ?thesis
      by (auto simp: SkipSpace_loop_step eof_GetChar_mono)
  qed
qed

lemma SkipSpace_eof_mono [eof_mono]:
  "eof (input L) \<Longrightarrow> eof (input (snd (SkipSpace u L)))"
  using SkipSpace_loop_frame
    [of "snd (GetChar (c_SkipSpace u) (input L))" "fst (GetChar (c_SkipSpace u) (input L))"]
  by (simp add: SkipSpace_def split_beta Let_def eof_GetChar_mono)

lemma SkipSpace_line_no_mono: "line_no L \<le> line_no (snd (SkipSpace u L))"
proof -
  let ?c = "fst (GetChar (c_SkipSpace u) (input L))"
  let ?ln = "line_no L + (if ?c = newline then 1 else 0)"
  have "?ln \<le> fst (snd (SkipSpace_loop (?c, ?ln, False, snd (GetChar (c_SkipSpace u) (input L)))))"
    using SkipSpace_loop_frame by blast
  then show ?thesis
    by (simp add: SkipSpace_def split_beta Let_def split: if_splits)
qed

lemma SkipSpace_frame [simp]:
  "tokens (snd (SkipSpace u L)) = tokens L" "tmp (snd (SkipSpace u L)) = tmp L"
  by (simp_all add: SkipSpace_def split_beta Let_def)

end
