(* ===== verification/Scanner_Driver.thy ===== *)
theory Scanner_Driver
  imports Number_Matcher Ident_Scanner Space_Skipper
begin

text \<open>
  The driver of \<^verbatim>\<open>lexer.cc\<close>: \<^verbatim>\<open>UngetToken\<close> pushes a token on the stack of
  returned tokens; \<^verbatim>\<open>GetToken\<close> delivers the token on top of the stack if there
  is one, and otherwise skips white space, records the line, fetches one
  character and dispatches on it (the \<^verbatim>\<open>switch\<close> is \<open>GetToken_switch\<close>, its cases in
  the order of the source). \<^verbatim>\<open>main\<close> prints tokens up to and including the first
  \<open>END_OF_FILE\<close>.
\<close>

section \<open>The pushback stack\<close>

definition UngetToken :: "Token \<Rightarrow> LexicalAnalyzer \<Rightarrow> TokenType \<times> LexicalAnalyzer" where
  "UngetToken tok L = (token_type tok, L\<lparr>tokens := tok # tokens L\<rparr>)"

section \<open>Dispatch on the first character\<close>

text \<open>\<^verbatim>\<open>tmp.token_type = t; return tmp;\<close>\<close>

definition return_type :: "TokenType \<Rightarrow> LexicalAnalyzer \<Rightarrow> Token \<times> LexicalAnalyzer" where
  "return_type t L = (let L = L\<lparr>tmp := (tmp L)\<lparr>token_type := t\<rparr>\<rparr> in (tmp L, L))"

definition GetToken_switch :: "Uninit \<Rightarrow> char \<Rightarrow> LexicalAnalyzer \<Rightarrow> Token \<times> LexicalAnalyzer" where
  "GetToken_switch u c L =
     (if c = CHR ''.'' then return_type DOT L
      else if c = CHR ''+'' then return_type PLUS L
      else if c = CHR ''-'' then return_type MINUS L
      else if c = CHR ''/'' then return_type DIV L
      else if c = CHR ''*'' then return_type MULT L
      else if c = CHR ''='' then return_type EQUAL L
      else if c = CHR '':'' then return_type COLON L
      else if c = CHR '','' then return_type COMMA L
      else if c = CHR '';'' then return_type SEMICOLON L
      else if c = CHR ''['' then return_type LBRAC L
      else if c = CHR '']'' then return_type RBRAC L
      else if c = CHR ''('' then return_type LPAREN L
      else if c = CHR '')'' then return_type RPAREN L
      else if c = CHR ''<'' then
        (let (c, inp) = GetChar c (input L);
             L = L\<lparr>input := inp\<rparr>
         in if c = CHR ''='' then return_type LTEQ L
            else if c = CHR ''>'' then return_type NOTEQUAL L
            else return_type LESS (L\<lparr>input := unget_unless_eof c (input L)\<rparr>))
      else if c = CHR ''>'' then
        (let (c, inp) = GetChar c (input L);
             L = L\<lparr>input := inp\<rparr>
         in if c = CHR ''='' then return_type GTEQ L
            else return_type GREATER (L\<lparr>input := unget_unless_eof c (input L)\<rparr>))
      else if isdigit c then ScanNumber u (L\<lparr>input := UngetChar c (input L)\<rparr>)
      else if isalpha c then ScanIdOrKeyword u (L\<lparr>input := UngetChar c (input L)\<rparr>)
      else if EndOfInput (input L) then return_type END_OF_FILE L
      else return_type ERROR L)"

section \<open>The next token\<close>

definition GetToken :: "Uninit \<Rightarrow> LexicalAnalyzer \<Rightarrow> Token \<times> LexicalAnalyzer" where
  "GetToken u L =
     (case tokens L of
        tok # rest \<Rightarrow> (let L = L\<lparr>tmp := tok, tokens := rest\<rparr> in (tmp L, L))
      | [] \<Rightarrow>
          (let (space_encountered, L) = SkipSpace u L;
               L = L\<lparr>tmp := (tmp L)\<lparr>lexeme := EMPTYSTRING, Token.line_no := line_no L\<rparr>\<rparr>;
               (c, inp) = GetChar (c_GetToken u) (input L);
               L = L\<lparr>input := inp\<rparr>
           in GetToken_switch u c L))"

section \<open>Invariants of the state\<close>

text \<open>The end flag of the cursor is never cleared, the line counter never
  decreases, and only \<^verbatim>\<open>UngetToken\<close> and the delivery of a returned token change the
  stack.\<close>

lemma return_type_frame [simp]:
  "input (snd (return_type t L)) = input L"
  "line_no (snd (return_type t L)) = line_no L"
  "tokens (snd (return_type t L)) = tokens L"
  by (simp_all add: return_type_def Let_def)

lemma GetToken_switch_eof_mono [eof_mono]:
  "eof (input L) \<Longrightarrow> eof (input (snd (GetToken_switch u c L)))"
  by (simp add: GetToken_switch_def split_beta Let_def eof_GetChar_mono eof_mono)

lemma GetToken_switch_frame [simp]:
  "line_no (snd (GetToken_switch u c L)) = line_no L"
  "tokens (snd (GetToken_switch u c L)) = tokens L"
  by (simp_all add: GetToken_switch_def split_beta Let_def)

lemma GetToken_eof_mono_aux:
  "eof (input L) \<Longrightarrow> eof (input (snd (GetToken u L)))"
proof (cases "tokens L")
  case Nil
  assume "eof (input L)"
  then have "eof (input (snd (SkipSpace u L)))"
    by (rule SkipSpace_eof_mono)
  with Nil show ?thesis
    by (simp add: GetToken_def split_beta Let_def eof_GetChar_mono eof_mono)
next
  case (Cons tok rest)
  assume "eof (input L)"
  with Cons show ?thesis
    by (simp add: GetToken_def)
qed

lemma GetToken_line_no_aux: "line_no L \<le> line_no (snd (GetToken u L))"
  using SkipSpace_line_no_mono [of L u]
  by (cases "tokens L") (simp_all add: GetToken_def split_beta Let_def)

text \<open>A token read from the input carries the value of the line counter after the
  white space in front of it.\<close>

lemma return_type_stamp [simp]:
  "Token.line_no (fst (return_type t L)) = Token.line_no (tmp L)"
  by (simp add: return_type_def Let_def)

lemma GetToken_switch_stamp:
  "Token.line_no (tmp L) = line_no L \<Longrightarrow>
   Token.line_no (fst (GetToken_switch u c L)) = line_no L"
  by (simp add: GetToken_switch_def split_beta Let_def ScanIdOrKeyword_stamp)

lemma GetToken_stamp:
  assumes "tokens L = []"
  shows "Token.line_no (fst (GetToken u L)) = line_no (snd (GetToken u L))"
  using assms by (simp add: GetToken_def split_beta Let_def GetToken_switch_stamp)

section \<open>Returned tokens\<close>

text \<open>
  C23: A token handed to \<^verbatim>\<open>UngetToken\<close> is what the next \<^verbatim>\<open>GetToken\<close> returns, equal in
  every field, whatever the input holds; the stack is then as it was before the
  token was pushed, nothing is read from the cursor and the line counter does
  not move. The only other change of state is that \<^verbatim>\<open>tmp\<close> holds the token.
\<close>

theorem GetToken_after_UngetToken:
  "GetToken u (snd (UngetToken tok L)) = (tok, L\<lparr>tmp := tok\<rparr>)"
  by (simp add: GetToken_def UngetToken_def)

end
