(* ===== verification/Lexer_Main.thy ===== *)
theory Lexer_Main
  imports Scanner_Driver
begin

text \<open>
  The program: \<^verbatim>\<open>main\<close> creates a \<^verbatim>\<open>LexicalAnalyzer\<close> over standard input, fetches
  a token and prints it, and goes on fetching and printing while the token just
  printed is not \<open>END_OF_FILE\<close>. The model takes the text of standard input and
  returns the text written to standard output. The loop need not end - whether
  it does depends on what \<^verbatim>\<open>GetToken\<close> returns at the end of the input - so it is
  a partial function into \<open>option\<close>: \<open>None\<close> is a run that prints forever, and
  \<open>Some out\<close> a run that returns after writing \<open>out\<close>.
\<close>

section \<open>The program\<close>

partial_function (option) main_loop ::
  "Uninit \<Rightarrow> Token \<Rightarrow> LexicalAnalyzer \<Rightarrow> cstring \<Rightarrow> cstring option"
where
  "main_loop u token lexer out =
     (if token_type token \<noteq> END_OF_FILE
      then (let (token, lexer) = GetToken u lexer;
                out = out @ Print token
            in main_loop u token lexer out)
      else Some out)"

definition main :: "Uninit \<Rightarrow> cstring \<Rightarrow> cstring option" where
  "main u stdin =
     (let lexer = new_LexicalAnalyzer stdin;
          (token, lexer) = GetToken u lexer;
          out = Print token
      in main_loop u token lexer out)"

section \<open>Unfolding\<close>

text \<open>A name for what both \<^verbatim>\<open>main\<close> and the body of its loop unfold to: fetch a
  token, print it, and go on unless it is \<open>END_OF_FILE\<close>. It is no function of
  the source and is used in the proofs only.\<close>

definition turn :: "Uninit \<Rightarrow> LexicalAnalyzer \<Rightarrow> cstring \<Rightarrow> cstring option" where
  "turn u lexer out =
     (let (token, lexer) = GetToken u lexer
      in main_loop u token lexer (out @ Print token))"

lemma main_turn: "main u stdin = turn u (new_LexicalAnalyzer stdin) []"
  by (simp add: main_def turn_def Let_def split_beta)

lemma turn_last:
  "GetToken u lexer = (token, lexer') \<Longrightarrow> token_type token = END_OF_FILE \<Longrightarrow>
   turn u lexer out = Some (out @ Print token)"
  by (simp add: turn_def main_loop.simps)

lemma turn_next:
  "GetToken u lexer = (token, lexer') \<Longrightarrow> token_type token \<noteq> END_OF_FILE \<Longrightarrow>
   turn u lexer out = turn u lexer' (out @ Print token)"
  by (simp add: turn_def main_loop.simps [of u token] Let_def split_beta)

end
