(* ===== verification/Number_Spec.thy ===== *)
theory Number_Spec
  imports Number_Matcher
begin

text \<open>
  A reference grammar for the number formats, as functions on strings, and the
  proof that \<^verbatim>\<open>matchToBase\<close>, \<^verbatim>\<open>checkAndReturnNum\<close> and \<^verbatim>\<open>ScanNumber\<close> implement it.

  \<open>match_spec marker b s\<close> says what one attempt recognises at the front of \<open>s\<close>:
  \<open>Some (lexeme, rest)\<close>, or \<open>None\<close> when \<open>s\<close> does not start with a literal of
  the format. It describes the language the code accepts, including that after
  \<open>0.\<close> and its zeros one character that is not a positive digit is taken out
  of the input without becoming part of the lexeme.

  \<open>reaches_end marker b s\<close> says that the attempt cannot be decided without
  fetching past the end of \<open>s\<close>. Outside of it the code and the grammar agree,
  the cursor moves to \<open>rest\<close> on success and is left untouched on failure
  (\<open>matchToBase_spec\<close>). The end flag of the cursor after an attempt is exactly
  \<open>reaches_end\<close> (\<open>matchToBase_eof\<close>), so the condition can also be read off the
  result.
\<close>

section \<open>The grammar of one format\<close>

abbreviation digit_in :: "int \<Rightarrow> char \<Rightarrow> bool" where
  "digit_in b \<equiv> (\<lambda>c. isDigitInBase c b)"

definition zeros_spec :: "int \<Rightarrow> cstring \<Rightarrow> (cstring \<times> cstring) option" where
  "zeros_spec b t =
     (if dropWhile is_zero t = [] then Some (t, [])
      else if takeWhile is_zero t \<noteq> [] \<and> hd (dropWhile is_zero t) = newline then None
      else if isPositiveDigitInBase (hd (dropWhile is_zero t)) b
      then Some (takeWhile is_zero t @ takeWhile (digit_in b) (dropWhile is_zero t),
                 dropWhile (digit_in b) (dropWhile is_zero t))
      else Some (takeWhile is_zero t, tl (dropWhile is_zero t)))"

definition zeros_end :: "int \<Rightarrow> cstring \<Rightarrow> bool" where
  "zeros_end b t \<longleftrightarrow>
     dropWhile is_zero t = [] \<or>
     (\<not> (takeWhile is_zero t \<noteq> [] \<and> hd (dropWhile is_zero t) = newline) \<and>
      isPositiveDigitInBase (hd (dropWhile is_zero t)) b \<and>
      dropWhile (digit_in b) (dropWhile is_zero t) = [])"

definition fraction_spec :: "int \<Rightarrow> cstring \<Rightarrow> (cstring \<times> cstring) option" where
  "fraction_spec b t =
     (if takeWhile (digit_in b) t \<noteq> []
      then Some (takeWhile (digit_in b) t, dropWhile (digit_in b) t)
      else None)"

definition fraction_end :: "int \<Rightarrow> cstring \<Rightarrow> bool" where
  "fraction_end b t \<longleftrightarrow> dropWhile (digit_in b) t = []"

text \<open>What follows the leading digit \<open>c\<close>: the marker, and after the point the
  fraction; \<open>after\<close> is the grammar of what follows the point and \<open>r\<close> the input
  from the marker on.\<close>

definition marker_spec ::
  "cstring \<Rightarrow> (cstring \<Rightarrow> (cstring \<times> cstring) option) \<Rightarrow> cstring \<Rightarrow> (cstring \<times> cstring) option"
where
  "marker_spec marker after r =
     (if prefix marker r
      then (if marker \<noteq> DOTSTRING then Some (marker, drop (length marker) r)
            else map_option (\<lambda>(l, r'). (marker @ l, r')) (after (drop (length marker) r)))
      else None)"

definition marker_end :: "cstring \<Rightarrow> (cstring \<Rightarrow> bool) \<Rightarrow> cstring \<Rightarrow> bool" where
  "marker_end marker after_end r \<longleftrightarrow>
     (if prefix marker r then marker = DOTSTRING \<and> after_end (drop (length marker) r)
      else strict_prefix r marker)"

definition match_spec :: "cstring \<Rightarrow> int \<Rightarrow> cstring \<Rightarrow> (cstring \<times> cstring) option" where
  "match_spec marker b s =
     (case s of
        [] \<Rightarrow> None
      | c # t \<Rightarrow>
          if c = CHR ''0''
          then map_option (\<lambda>(l, r). (c # l, r)) (marker_spec marker (zeros_spec b) t)
          else if isPositiveDigitInBase c b
          then map_option (\<lambda>(l, r). (c # takeWhile (digit_in b) t @ l, r))
                 (marker_spec marker (fraction_spec b) (dropWhile (digit_in b) t))
          else None)"

definition reaches_end :: "cstring \<Rightarrow> int \<Rightarrow> cstring \<Rightarrow> bool" where
  "reaches_end marker b s =
     (case s of
        [] \<Rightarrow> True
      | c # t \<Rightarrow>
          if c = CHR ''0'' then marker_end marker (zeros_end b) t
          else if isPositiveDigitInBase c b
          then dropWhile (digit_in b) t = []
             \<or> marker_end marker (fraction_end b) (dropWhile (digit_in b) t)
          else False)"

text \<open>The result of an attempt that the grammar prescribes on a cursor with
  pending input \<open>s\<close>: the lexeme and the cursor at the rest, or the empty string
  and the cursor where it was.\<close>

definition attempt_result ::
  "cstring \<Rightarrow> (cstring \<times> cstring) option \<Rightarrow> cstring \<times> InputBuffer"
where
  "attempt_result s m =
     (case m of
        None \<Rightarrow> (EMPTYSTRING, \<lparr>pending = s, eof = False\<rparr>)
      | Some (l, r) \<Rightarrow> (l, \<lparr>pending = r, eof = False\<rparr>))"

lemma attempt_result_simps [simp]:
  "attempt_result s None = (EMPTYSTRING, \<lparr>pending = s, eof = False\<rparr>)"
  "attempt_result s (Some (l, r)) = (l, \<lparr>pending = r, eof = False\<rparr>)"
  by (simp_all add: attempt_result_def)

section \<open>The steps implement their grammar\<close>

lemma matchToBase_zeros_link:
  "matchToBase_zeros b c scanned \<lparr>pending = t, eof = False\<rparr> =
     (case zeros_spec b t of
        None \<Rightarrow> (EMPTYSTRING, \<lparr>pending = scanned @ t, eof = zeros_end b t\<rparr>)
      | Some (l, r) \<Rightarrow> (scanned @ l, \<lparr>pending = r, eof = zeros_end b t\<rparr>))"
proof (cases "dropWhile is_zero t")
  case Nil
  then show ?thesis
    by (simp add: matchToBase_zeros_fresh zeros_spec_def zeros_end_def
        del: dropWhile_eq_Nil_conv)
next
  case (Cons y ys)
  then show ?thesis
    by (simp add: matchToBase_zeros_fresh zeros_spec_def zeros_end_def)
qed

lemma matchToBase_fraction_link:
  "matchToBase_fraction b c scanned \<lparr>pending = t, eof = False\<rparr> =
     (case fraction_spec b t of
        None \<Rightarrow> (EMPTYSTRING, \<lparr>pending = scanned @ t, eof = fraction_end b t\<rparr>)
      | Some (l, r) \<Rightarrow> (scanned @ l, \<lparr>pending = r, eof = fraction_end b t\<rparr>))"
proof (cases "takeWhile (digit_in b) t = []")
  case True
  then have "dropWhile (digit_in b) t = t"
    using takeWhile_dropWhile_id [of "digit_in b" t] by simp
  with True show ?thesis
    by (simp add: matchToBase_fraction_fresh fraction_spec_def fraction_end_def
        del: dropWhile_eq_Nil_conv takeWhile_eq_Nil_iff)
next
  case False
  then show ?thesis
    by (simp add: matchToBase_fraction_fresh fraction_spec_def fraction_end_def)
qed

section \<open>The marker stage\<close>

text \<open>Both branches of \<^verbatim>\<open>matchToBase\<close> contain the same statements after the
  leading digits: check the marker, push everything back if it is not there,
  and go on after the point. \<open>marker_stage\<close> is that common text, with the
  code \<open>k\<close> that follows the point as a parameter; the two branches are
  instances of it.\<close>

definition marker_stage ::
  "Uninit \<Rightarrow> cstring \<Rightarrow> (cstring \<Rightarrow> InputBuffer \<Rightarrow> cstring \<times> InputBuffer)
    \<Rightarrow> cstring \<Rightarrow> InputBuffer \<Rightarrow> cstring \<times> InputBuffer"
where
  "marker_stage u marker k scanned inp =
     (let (ok, inp) = verifyPatternMatch u marker inp
      in if \<not> ok then (EMPTYSTRING, UngetString scanned inp)
         else (let scanned = scanned @ marker
               in if marker \<noteq> DOTSTRING then (scanned, inp) else k scanned inp))"

lemma matchToBase_zero_stage:
  "matchToBase_zero u marker b c scanned inp =
     marker_stage u marker (matchToBase_zeros b c) scanned inp"
  by (simp add: matchToBase_zero_def marker_stage_def)

lemma matchToBase_nonzero_stage:
  "matchToBase_nonzero u marker b c scanned \<lparr>pending = t, eof = False\<rparr> =
     marker_stage u marker
       (matchToBase_fraction b (lookahead (digit_in b) (last (c # t)) t))
       (scanned @ takeWhile (digit_in b) t)
       \<lparr>pending = dropWhile (digit_in b) t, eof = (dropWhile (digit_in b) t = [])\<rparr>"
  by (simp add: matchToBase_nonzero_def marker_stage_def split_beta GetChar_scan_run_fresh
      Let_def del: dropWhile_eq_Nil_conv)

lemma mismatch_not_strict_prefix: "x \<noteq> y \<Longrightarrow> \<not> strict_prefix (p @ y # rest) (p @ x # t)"
  by (simp add: strict_prefix_def)

lemma marker_stage_eof_mono:
  assumes "\<And>scanned' inp'. eof inp' \<Longrightarrow> eof (snd (k scanned' inp'))" and "eof inp"
  shows "eof (snd (marker_stage u marker k scanned inp))"
  using assms by (simp add: marker_stage_def split_beta Let_def eof_mono)

text \<open>The stage on a cursor that has not seen the end, where \<open>k\<close> implements the
  grammar \<open>after\<close> and ends with the flag \<open>after_end\<close>: outside \<open>marker_end\<close> it
  implements \<open>marker_spec\<close>; inside, it ends with the flag set.\<close>

lemma marker_stage_spec:
  assumes k: "\<And>scanned' r'. k scanned' \<lparr>pending = r', eof = False\<rparr> =
      (case after r' of
         None \<Rightarrow> (EMPTYSTRING, \<lparr>pending = scanned' @ r', eof = after_end r'\<rparr>)
       | Some (l, r'') \<Rightarrow> (scanned' @ l, \<lparr>pending = r'', eof = after_end r'\<rparr>))"
    and ne: "\<not> marker_end marker after_end r"
  shows "marker_stage u marker k scanned \<lparr>pending = r, eof = False\<rparr> =
     (case marker_spec marker after r of
        None \<Rightarrow> (EMPTYSTRING, \<lparr>pending = scanned @ r, eof = False\<rparr>)
      | Some (l, r') \<Rightarrow> (scanned @ l, \<lparr>pending = r', eof = False\<rparr>))"
proof (cases rule: marker_cases [where inp = r and s = marker])
  case (match rest)
  show ?thesis
  proof (cases "marker = DOTSTRING")
    case False
    then show ?thesis
      unfolding match by (simp add: marker_stage_def verifyPatternMatch_match marker_spec_def)
  next
    case True
    with ne have "\<not> after_end rest"
      unfolding match by (simp add: marker_end_def)
    with True show ?thesis
      unfolding match
      by (simp add: marker_stage_def verifyPatternMatch_match marker_spec_def k
          split: option.split)
  qed
next
  case (mismatch p x t y rest)
  then show ?thesis
    by (simp add: marker_stage_def verifyPatternMatch_mismatch marker_spec_def
        mismatch_not_prefix)
next
  case (short x t)
  then have "strict_prefix r marker"
    by (simp add: strict_prefix_def prefix_def)
  moreover from short have "\<not> prefix marker r"
    by (simp add: short_not_prefix)
  ultimately show ?thesis
    using ne by (simp add: marker_end_def)
qed

lemma marker_stage_end:
  assumes k: "\<And>scanned' r'. k scanned' \<lparr>pending = r', eof = False\<rparr> =
      (case after r' of
         None \<Rightarrow> (EMPTYSTRING, \<lparr>pending = scanned' @ r', eof = after_end r'\<rparr>)
       | Some (l, r'') \<Rightarrow> (scanned' @ l, \<lparr>pending = r'', eof = after_end r'\<rparr>))"
    and mono: "\<And>scanned' inp'. eof inp' \<Longrightarrow> eof (snd (k scanned' inp'))"
    and e: "marker_end marker after_end r"
  shows "eof (snd (marker_stage u marker k scanned \<lparr>pending = r, eof = False\<rparr>))"
proof (cases rule: marker_cases [where inp = r and s = marker])
  case (match rest)
  with e have "marker = DOTSTRING" and "after_end rest"
    by (simp_all add: marker_end_def)
  then show ?thesis
    unfolding match
    by (simp add: marker_stage_def verifyPatternMatch_match k split: option.split)
next
  case (mismatch p x t y rest)
  with e show ?thesis
    by (simp add: marker_end_def mismatch_not_prefix mismatch_not_strict_prefix)
next
  case (short x t)
  have "eof (snd (verifyPatternMatch u marker \<lparr>pending = r, eof = False\<rparr>))"
    unfolding short verifyPatternMatch_def by (rule verifyPatternMatch_from_short_fresh_eof)
  then show ?thesis
    unfolding marker_stage_def
    by (cases "verifyPatternMatch u marker \<lparr>pending = r, eof = False\<rparr>")
       (simp add: Let_def mono)
qed

section \<open>One attempt implements the grammar\<close>

text \<open>The correctness of one attempt, for a cursor that has not seen the end of
  the input and an input on which the attempt does not reach the end.\<close>

lemma matchToBase_spec:
  assumes "\<not> reaches_end marker b s"
  shows "matchToBase u marker b \<lparr>pending = s, eof = False\<rparr> = attempt_result s (match_spec marker b s)"
proof (cases s)
  case Nil
  with assms show ?thesis
    by (simp add: reaches_end_def)
next
  case (Cons c t)
  show ?thesis
  proof (cases "c = CHR ''0''")
    case True
    with assms Cons have "\<not> marker_end marker (zeros_end b) t"
      by (simp add: reaches_end_def)
    from marker_stage_spec [where k = "matchToBase_zeros b (CHR ''0'')" and u = u
          and scanned = "[CHR ''0'']", OF matchToBase_zeros_link this]
      True Cons
    show ?thesis
      by (simp add: matchToBase_def matchToBase_zero_stage match_spec_def EMPTYSTRING_def
          attempt_result_def split: option.split)
  next
    case False
    show ?thesis
    proof (cases "isPositiveDigitInBase c b")
      case True
      with assms Cons False
      have r: "dropWhile (digit_in b) t \<noteq> []"
        and "\<not> marker_end marker (fraction_end b) (dropWhile (digit_in b) t)"
        by (simp_all add: reaches_end_def del: dropWhile_eq_Nil_conv)
      from marker_stage_spec
          [where k = "matchToBase_fraction b (lookahead (digit_in b) (last (c # t)) t)"
            and u = u and scanned = "c # takeWhile (digit_in b) t",
            OF matchToBase_fraction_link this(2)]
        r True False Cons
      show ?thesis
        by (simp add: matchToBase_def matchToBase_nonzero_stage match_spec_def
            EMPTYSTRING_def attempt_result_def split: option.split
            del: dropWhile_eq_Nil_conv)
    next
      case no: False
      with False Cons show ?thesis
        by (simp add: matchToBase_def match_spec_def EMPTYSTRING_def)
    qed
  qed
qed

text \<open>The end flag after an attempt says whether the attempt reached the end.\<close>

lemma eof_attempt_result [simp]: "\<not> eof (snd (attempt_result s m))"
  by (simp add: attempt_result_def split: option.split prod.split)

lemma matchToBase_reaches_end:
  assumes "reaches_end marker b s"
  shows "eof (snd (matchToBase u marker b \<lparr>pending = s, eof = False\<rparr>))"
proof (cases s)
  case Nil
  then show ?thesis
    by (simp add: matchToBase_eof_mono)
next
  case (Cons c t)
  show ?thesis
  proof (cases "c = CHR ''0''")
    case True
    with assms Cons have "marker_end marker (zeros_end b) t"
      by (simp add: reaches_end_def)
    from marker_stage_end [where k = "matchToBase_zeros b (CHR ''0'')" and u = u
        and scanned = "[CHR ''0'']",
        OF matchToBase_zeros_link matchToBase_zeros_eof_mono this] True Cons
    show ?thesis
      by (simp add: matchToBase_def matchToBase_zero_stage EMPTYSTRING_def)
  next
    case False
    with assms Cons have pos: "isPositiveDigitInBase c b"
      and e: "dropWhile (digit_in b) t = []
        \<or> marker_end marker (fraction_end b) (dropWhile (digit_in b) t)"
      by (simp_all add: reaches_end_def split: if_splits del: dropWhile_eq_Nil_conv)
    let ?k = "matchToBase_fraction b (lookahead (digit_in b) (last (c # t)) t)"
    have "eof (snd (matchToBase_nonzero u marker b c [c] \<lparr>pending = t, eof = False\<rparr>))"
    proof (cases "dropWhile (digit_in b) t = []")
      case True
      show ?thesis
        unfolding matchToBase_nonzero_stage True
        by (rule marker_stage_eof_mono) (simp_all add: eof_mono)
    next
      case False
      with e have "marker_end marker (fraction_end b) (dropWhile (digit_in b) t)"
        by blast
      from marker_stage_end [where k = ?k and u = u
          and scanned = "[c] @ takeWhile (digit_in b) t",
          OF matchToBase_fraction_link matchToBase_fraction_eof_mono this]
      show ?thesis
        unfolding matchToBase_nonzero_stage by (simp only: False)
    qed
    with pos False Cons show ?thesis
      by (simp add: matchToBase_def EMPTYSTRING_def)
  qed
qed

lemma matchToBase_eof:
  "eof (snd (matchToBase u marker b \<lparr>pending = s, eof = False\<rparr>)) \<longleftrightarrow> reaches_end marker b s"
  using matchToBase_reaches_end [of marker b s u] matchToBase_spec [of marker b s u]
  by (cases "reaches_end marker b s") simp_all

lemma match_spec_lexeme: "match_spec marker b s = Some (l, r) \<Longrightarrow> l \<noteq> []"
  by (auto simp: match_spec_def split: list.splits if_splits)

section \<open>The rest is what is left of the input\<close>

lemma zeros_spec_suffix: "zeros_spec b t = Some (l, r) \<Longrightarrow> suffix r t"
  by (auto simp: zeros_spec_def suffix_tl split: if_splits
      intro: suffix_order.trans [OF suffix_dropWhile suffix_dropWhile]
        suffix_order.trans [OF suffix_tl suffix_dropWhile])

lemma fraction_spec_suffix: "fraction_spec b t = Some (l, r) \<Longrightarrow> suffix r t"
  by (auto simp: fraction_spec_def suffix_dropWhile split: if_splits)

lemma marker_spec_suffix:
  assumes "marker_spec marker after t = Some (l, r)"
    and "\<And>t' l' r'. after t' = Some (l', r') \<Longrightarrow> suffix r' t'"
  shows "suffix r t"
proof (cases "marker = DOTSTRING")
  case False
  with assms(1) show ?thesis
    by (auto simp: marker_spec_def suffix_drop split: if_splits)
next
  case True
  with assms(1) obtain l' where "after (drop (length marker) t) = Some (l', r)"
    by (auto simp: marker_spec_def split: if_splits)
  then have "suffix r (drop (length marker) t)"
    by (rule assms(2))
  then show ?thesis
    using suffix_drop suffix_order.trans by blast
qed

lemma match_spec_suffix:
  assumes "match_spec marker b s = Some (l, r)"
  shows "strict_suffix r s"
proof -
  from assms obtain c t where s: "s = c # t"
    by (cases s) (auto simp: match_spec_def)
  have "suffix r t"
  proof (cases "c = CHR ''0''")
    case True
    with assms s obtain l' where "marker_spec marker (zeros_spec b) t = Some (l', r)"
      by (auto simp: match_spec_def)
    then show ?thesis
      by (rule marker_spec_suffix) (rule zeros_spec_suffix)
  next
    case False
    with assms s obtain l' where
      "marker_spec marker (fraction_spec b) (dropWhile (digit_in b) t) = Some (l', r)"
      by (auto simp: match_spec_def split: if_splits)
    then have "suffix r (dropWhile (digit_in b) t)"
      by (rule marker_spec_suffix) (rule fraction_spec_suffix)
    then show ?thesis
      using suffix_dropWhile suffix_order.trans by blast
  qed
  then show ?thesis
    unfolding s using suffix_length_le [of r t]
    by (auto simp: strict_suffix_def suffix_ConsI)
qed

section \<open>Texts on which an attempt reaches the end\<close>

text \<open>An attempt reaches the end only of a text that consists of digits of the
  base, zeros and characters of the marker.\<close>

definition literal_char :: "cstring \<Rightarrow> int \<Rightarrow> char \<Rightarrow> bool" where
  "literal_char marker b c \<longleftrightarrow> isDigitInBase c b \<or> c = CHR ''0'' \<or> c \<in> set marker"

lemma run_all: "dropWhile P t = [] \<Longrightarrow> (\<And>c. P c \<Longrightarrow> Q c) \<Longrightarrow> list_all Q t"
  by (auto simp: list_all_iff)

lemma run_rest_all:
  assumes "list_all Q (dropWhile P t)" and "\<And>c. P c \<Longrightarrow> Q c"
  shows "list_all Q t"
proof -
  have "list_all Q (takeWhile P t)"
    using assms(2) by (auto simp: list_all_iff dest: set_takeWhileD)
  with assms(1) have "list_all Q (takeWhile P t @ dropWhile P t)"
    by (simp only: list_all_append)
  then show ?thesis
    by (simp only: takeWhile_dropWhile_id)
qed

lemma zeros_end_chars: "zeros_end b t \<Longrightarrow> list_all (literal_char marker b) t"
proof -
  assume "zeros_end b t"
  then have "list_all (literal_char marker b) (dropWhile is_zero t)"
    unfolding zeros_end_def
    by (auto simp: literal_char_def intro: run_all simp del: dropWhile_eq_Nil_conv)
  then show ?thesis
    by (rule run_rest_all) (simp add: literal_char_def)
qed

lemma fraction_end_chars: "fraction_end b t \<Longrightarrow> list_all (literal_char marker b) t"
  unfolding fraction_end_def by (rule run_all) (simp_all add: literal_char_def)

lemma marker_end_chars:
  assumes "marker_end marker after_end t"
    and "\<And>t'. after_end t' \<Longrightarrow> list_all (literal_char marker b) t'"
  shows "list_all (literal_char marker b) t"
proof (cases "prefix marker t")
  case True
  then obtain t' where t: "t = marker @ t'"
    by (auto simp: prefix_def)
  with assms(1) have "after_end t'"
    by (simp add: marker_end_def)
  from assms(2) [OF this] show ?thesis
    unfolding t by (auto simp: list_all_iff literal_char_def)
next
  case False
  with assms(1) have "strict_prefix t marker"
    by (simp add: marker_end_def)
  then have "set t \<subseteq> set marker"
    by (auto simp: strict_prefix_def prefix_def)
  then show ?thesis
    by (auto simp: list_all_iff literal_char_def)
qed

lemma reaches_end_chars:
  assumes "reaches_end marker b s"
  shows "list_all (literal_char marker b) s"
proof (cases s)
  case Nil
  then show ?thesis
    by simp
next
  case (Cons c t)
  show ?thesis
  proof (cases "c = CHR ''0''")
    case True
    with assms Cons have "marker_end marker (zeros_end b) t"
      by (simp add: reaches_end_def)
    then have "list_all (literal_char marker b) t"
      by (rule marker_end_chars) (rule zeros_end_chars)
    with True Cons show ?thesis
      by (simp add: literal_char_def)
  next
    case False
    with assms Cons have c: "isPositiveDigitInBase c b"
      and e: "dropWhile (digit_in b) t = []
        \<or> marker_end marker (fraction_end b) (dropWhile (digit_in b) t)"
      by (simp_all add: reaches_end_def split: if_splits del: dropWhile_eq_Nil_conv)
    from e have "list_all (literal_char marker b) (dropWhile (digit_in b) t)"
    proof
      assume "dropWhile (digit_in b) t = []"
      then show ?thesis
        by (simp del: dropWhile_eq_Nil_conv)
    next
      assume "marker_end marker (fraction_end b) (dropWhile (digit_in b) t)"
      then show ?thesis
        by (rule marker_end_chars) (rule fraction_end_chars)
    qed
    then have "list_all (literal_char marker b) t"
      by (rule run_rest_all) (simp add: literal_char_def)
    with c Cons show ?thesis
      by (simp add: literal_char_def isPositiveDigitInBase_imp_digit)
  qed
qed

section \<open>Refinement\<close>

text \<open>
  C5: \<^verbatim>\<open>matchToBase\<close> implements the grammar of its format. Whenever an attempt
  returns with the end flag of the cursor not set, it started on a cursor that
  had not seen the end, and its result is the one \<open>match_spec\<close> prescribes for the
  pending input: the lexeme and the cursor in front of the rest when the input
  starts with a literal of the format, and otherwise the empty string and the
  cursor exactly as it was.
\<close>

theorem matchToBase_refines:
  assumes "matchToBase u marker b inp = (lx, inp')" and "\<not> eof inp'"
  shows "(lx, inp') = attempt_result (pending inp) (match_spec marker b (pending inp))"
proof -
  obtain s e where inp: "inp = \<lparr>pending = s, eof = e\<rparr>"
    by (cases inp) simp
  from assms matchToBase_eof_mono [of inp u marker b] have "\<not> eof inp"
    by auto
  with inp have e: "e = False"
    by simp
  from assms matchToBase_eof [of u marker b s] have "\<not> reaches_end marker b s"
    unfolding inp e by simp
  from matchToBase_spec [OF this, of u] assms(1) show ?thesis
    unfolding inp e by simp
qed

theorem matchToBase_refines_witness:
  "\<forall>u. matchToBase u BASE08STRING 8 (cursor_of ''17x08;'') = (''17x08'', cursor_of '';'')"
proof
  fix u
  have "\<not> reaches_end BASE08STRING 8 ''17x08;''"
    by code_simp
  then have "\<not> eof (snd (matchToBase u BASE08STRING 8 (cursor_of ''17x08;'')))"
    by (simp add: matchToBase_eof cursor_of_def)
  moreover have "match_spec BASE08STRING 8 ''17x08;'' = Some (''17x08'', '';'')"
    by code_simp
  ultimately show "matchToBase u BASE08STRING 8 (cursor_of ''17x08;'') = (''17x08'', cursor_of '';'')"
    using matchToBase_refines [OF surjective_pairing, of u BASE08STRING 8 "cursor_of ''17x08;''"]
    by (simp add: cursor_of_def)
qed

text \<open>
  C6: A failed attempt is undone. When \<^verbatim>\<open>matchToBase\<close> returns the empty string
  and the end flag of the cursor is not set, the cursor is exactly as it was
  before the call: every character the attempt fetched has been pushed back in
  its place, and the next attempt sees the same input.
\<close>

theorem matchToBase_rollback:
  assumes "matchToBase u marker b inp = (EMPTYSTRING, inp')" and "\<not> eof inp'"
  shows "inp' = inp"
proof -
  obtain s e where inp: "inp = \<lparr>pending = s, eof = e\<rparr>"
    by (cases inp) simp
  from assms matchToBase_eof_mono [of inp u marker b] have "\<not> eof inp"
    by auto
  with inp have e: "e = False"
    by simp
  from assms matchToBase_eof [of u marker b s] have "\<not> reaches_end marker b s"
    unfolding inp e by simp
  from matchToBase_spec [OF this, of u] assms(1)
  have "attempt_result s (match_spec marker b s) = (EMPTYSTRING, inp')"
    unfolding inp e by simp
  then show ?thesis
    unfolding inp e
    by (cases "match_spec marker b s") (auto simp: EMPTYSTRING_def dest: match_spec_lexeme)
qed

theorem matchToBase_rollback_witness:
  "\<forall>u. matchToBase u BASE08STRING 8 (cursor_of ''17+2'') = (EMPTYSTRING, cursor_of ''17+2'')"
proof
  fix u
  let ?r = "matchToBase u BASE08STRING 8 (cursor_of ''17+2'')"
  have ne: "\<not> reaches_end BASE08STRING 8 ''17+2''"
    by code_simp
  have "match_spec BASE08STRING 8 ''17+2'' = None"
    by code_simp
  with matchToBase_spec [OF ne, of u] have run: "?r = (EMPTYSTRING, snd ?r)"
    by (simp add: cursor_of_def)
  from ne have "\<not> eof (snd ?r)"
    by (simp add: matchToBase_eof cursor_of_def)
  from matchToBase_rollback [OF run this] run show "?r = (EMPTYSTRING, cursor_of ''17+2'')"
    by simp
qed

end
