(* ===== verification/Number_Formats.thy ===== *)
theory Number_Formats
  imports Number_Spec
begin

text \<open>
  The grammar of a whole number token and the proof that \<^verbatim>\<open>ScanNumber\<close>
  implements it: the formats of \<^verbatim>\<open>numberTypes\<close> in their order (real, base 8,
  base 16), each by \<open>match_spec\<close>, and the plain integer of
  \<^verbatim>\<open>checkAndReturnNum\<close> last. \<open>number_spec s\<close> is the lexeme, the kind of token
  and the rest of the input; \<open>number_end s\<close> says that some attempt reaches the
  end of \<open>s\<close> before the token is decided.
\<close>

section \<open>The plain integer\<close>

definition num_spec :: "cstring \<Rightarrow> (cstring \<times> cstring) option" where
  "num_spec s =
     (case s of
        [] \<Rightarrow> None
      | c # t \<Rightarrow>
          if isdigit c
          then (if c = CHR ''0'' then Some ([c], t)
                else Some (c # takeWhile isdigit t, dropWhile isdigit t))
          else None)"

definition num_end :: "cstring \<Rightarrow> bool" where
  "num_end s =
     (case s of
        [] \<Rightarrow> True
      | c # t \<Rightarrow> isdigit c \<and> c \<noteq> CHR ''0'' \<and> dropWhile isdigit t = [])"

lemma checkAndReturnNum_fresh:
  "checkAndReturnNum u \<lparr>pending = c # t, eof = False\<rparr> =
     (if isdigit c
      then if c = CHR ''0'' then ([c], \<lparr>pending = t, eof = False\<rparr>)
           else (c # takeWhile isdigit t,
                 \<lparr>pending = dropWhile isdigit t, eof = (dropWhile isdigit t = [])\<rparr>)
      else (EMPTYSTRING, \<lparr>pending = c # t, eof = False\<rparr>))"
  by (simp add: checkAndReturnNum_def EMPTYSTRING_def split_beta GetChar_scan_run_fresh
      del: dropWhile_eq_Nil_conv)

lemma checkAndReturnNum_spec:
  "\<not> num_end s \<Longrightarrow>
   checkAndReturnNum u \<lparr>pending = s, eof = False\<rparr> = attempt_result s (num_spec s)"
  by (cases s)
     (auto simp: num_end_def num_spec_def checkAndReturnNum_fresh
       simp del: dropWhile_eq_Nil_conv)

lemma checkAndReturnNum_eof:
  "eof (snd (checkAndReturnNum u \<lparr>pending = s, eof = False\<rparr>)) \<longleftrightarrow> num_end s"
  by (cases s)
     (simp_all add: num_end_def checkAndReturnNum_fresh checkAndReturnNum_eof_mono
       del: dropWhile_eq_Nil_conv)

section \<open>The formats in order\<close>

fun formats_spec :: "NumberType list \<Rightarrow> cstring \<Rightarrow> (cstring \<times> TokenType \<times> cstring) option" where
  "formats_spec [] s = None"
| "formats_spec (numberType # types) s =
     (case match_spec (validate_string numberType) (base numberType) s of
        Some (l, r) \<Rightarrow> Some (l, tokenType numberType, r)
      | None \<Rightarrow> formats_spec types s)"

fun formats_end :: "NumberType list \<Rightarrow> cstring \<Rightarrow> bool" where
  "formats_end [] s = False"
| "formats_end (numberType # types) s =
     (reaches_end (validate_string numberType) (base numberType) s
      \<or> (match_spec (validate_string numberType) (base numberType) s = None
         \<and> formats_end types s))"

definition number_spec :: "cstring \<Rightarrow> (cstring \<times> TokenType \<times> cstring) option" where
  "number_spec s =
     (case formats_spec numberTypes s of
        Some x \<Rightarrow> Some x
      | None \<Rightarrow> map_option (\<lambda>(l, r). (l, NUM, r)) (num_spec s))"

definition number_end :: "cstring \<Rightarrow> bool" where
  "number_end s \<longleftrightarrow>
     formats_end numberTypes s \<or> (formats_spec numberTypes s = None \<and> num_end s)"

text \<open>\<open>emits L l ty r\<close> is the result of a scanning function that delivers the
  token with lexeme \<open>l\<close> and kind \<open>ty\<close> on the line of the state \<open>L\<close>: the token,
  and the state with the token in \<^verbatim>\<open>tmp\<close> and the cursor in front of \<open>r\<close>, the end
  of the input not seen.\<close>

definition emits ::
  "LexicalAnalyzer \<Rightarrow> cstring \<Rightarrow> TokenType \<Rightarrow> cstring \<Rightarrow> Token \<times> LexicalAnalyzer"
where
  "emits L l ty r =
     (let tok = \<lparr>lexeme = l, token_type = ty, Token.line_no = line_no L\<rparr>
      in (tok, L\<lparr>tmp := tok, input := \<lparr>pending = r, eof = False\<rparr>\<rparr>))"

text \<open>The results that the grammar prescribes for the loop over the formats and
  for \<^verbatim>\<open>ScanNumber\<close>.\<close>

definition formats_result ::
  "LexicalAnalyzer \<Rightarrow> (cstring \<times> TokenType \<times> cstring) option
    \<Rightarrow> Token option \<times> LexicalAnalyzer"
where
  "formats_result L m =
     (case m of
        None \<Rightarrow> (None, L)
      | Some (l, ty, r) \<Rightarrow>
          (let t = (tmp L)\<lparr>lexeme := l, token_type := ty\<rparr>
           in (Some t, L\<lparr>tmp := t, input := \<lparr>pending = r, eof = False\<rparr>\<rparr>)))"

definition number_result ::
  "LexicalAnalyzer \<Rightarrow> (cstring \<times> TokenType \<times> cstring) option \<Rightarrow> Token \<times> LexicalAnalyzer"
where
  "number_result L m =
     (case m of
        None \<Rightarrow>
          (let t = \<lparr>lexeme = EMPTYSTRING, token_type = ERROR, Token.line_no = line_no L\<rparr>
           in (t, L\<lparr>tmp := t\<rparr>))
      | Some (l, ty, r) \<Rightarrow> emits L l ty r)"

lemma input_same: "input L = inp \<Longrightarrow> L\<lparr>input := inp\<rparr> = L"
  by (cases L) simp

lemma ScanNumber_types_spec:
  assumes "\<not> formats_end types s" and "input L = \<lparr>pending = s, eof = False\<rparr>"
  shows "ScanNumber_types u types L = formats_result L (formats_spec types s)"
  using assms
proof (induction types)
  case Nil
  then show ?case
    by (simp add: formats_result_def)
next
  case (Cons nt nts)
  from Cons.prems have ne: "\<not> reaches_end (validate_string nt) (base nt) s"
    by simp
  note run = matchToBase_spec [OF ne, of u] Cons.prems(2) input_same [OF Cons.prems(2)]
  show ?case
  proof (cases "match_spec (validate_string nt) (base nt) s")
    case None
    with Cons.prems have "\<not> formats_end nts s"
      by simp
    from Cons.IH [OF this Cons.prems(2)] None show ?thesis
      by (simp add: run EMPTYSTRING_def)
  next
    case (Some p)
    obtain l r where p: "p = (l, r)"
      by (cases p)
    with Some have "l \<noteq> []"
      by (simp add: match_spec_lexeme)
    with Some p show ?thesis
      by (simp add: run formats_result_def Let_def)
  qed
qed

lemma ScanNumber_types_end:
  assumes "formats_end types s" and "input L = \<lparr>pending = s, eof = False\<rparr>"
  shows "eof (input (snd (ScanNumber_types u types L)))"
  using assms
proof (induction types)
  case Nil
  then show ?case
    by simp
next
  case (Cons nt nts)
  show ?case
  proof (cases "reaches_end (validate_string nt) (base nt) s")
    case True
    then have "eof (snd (matchToBase u (validate_string nt) (base nt) (input L)))"
      by (simp add: Cons.prems(2) matchToBase_reaches_end)
    then show ?thesis
      by (simp add: split_beta Let_def ScanNumber_types_eof_mono)
  next
    case False
    with Cons.prems have none: "match_spec (validate_string nt) (base nt) s = None"
      and "formats_end nts s"
      by simp_all
    from Cons.IH [OF this(2) Cons.prems(2)] none show ?thesis
      by (simp add: matchToBase_spec [OF False, of u] Cons.prems(2)
          input_same [OF Cons.prems(2)] EMPTYSTRING_def)
  qed
qed

section \<open>The whole scanner of numbers\<close>

lemma ScanNumber_spec:
  assumes "\<not> number_end s" and "input L = \<lparr>pending = s, eof = False\<rparr>"
  shows "ScanNumber u L = number_result L (number_spec s)"
proof -
  let ?t = "\<lparr>lexeme = [], token_type = ERROR, Token.line_no = line_no L\<rparr>"
  let ?L = "L\<lparr>tmp := ?t\<rparr>"
  from assms(2) have inp: "input ?L = \<lparr>pending = s, eof = False\<rparr>"
    by simp
  from assms(1) have "\<not> formats_end numberTypes s"
    by (simp add: number_end_def)
  note types = ScanNumber_types_spec [OF this inp, of u]
  show ?thesis
  proof (cases "formats_spec numberTypes s")
    case (Some x)
    obtain l ty r where "x = (l, ty, r)"
      by (cases x)
    with Some show ?thesis
      by (simp add: ScanNumber_def EMPTYSTRING_def types formats_result_def number_result_def emits_def
          number_spec_def Let_def)
  next
    case None
    with assms(1) have "\<not> num_end s"
      by (simp add: number_end_def)
    note num = checkAndReturnNum_spec [OF this, of u]
    show ?thesis
    proof (cases "num_spec s")
      case none: None
      with None show ?thesis
        by (simp add: ScanNumber_def EMPTYSTRING_def types formats_result_def number_result_def emits_def
            number_spec_def Let_def assms(2) num input_same [OF inp])
    next
      case (Some p)
      obtain l r where p: "p = (l, r)"
        by (cases p)
      with Some have "l \<noteq> []"
        by (auto simp: num_spec_def split: list.splits if_splits)
      with Some p None show ?thesis
        by (simp add: ScanNumber_def EMPTYSTRING_def types formats_result_def number_result_def emits_def
            number_spec_def Let_def assms(2) num)
    qed
  qed
qed

lemma ScanNumber_end:
  assumes "number_end s" and "input L = \<lparr>pending = s, eof = False\<rparr>"
  shows "eof (input (snd (ScanNumber u L)))"
proof -
  let ?t = "\<lparr>lexeme = EMPTYSTRING, token_type = ERROR, Token.line_no = line_no L\<rparr>"
  let ?L = "L\<lparr>tmp := ?t\<rparr>"
  from assms(2) have inp: "input ?L = \<lparr>pending = s, eof = False\<rparr>"
    by simp
  show ?thesis
  proof (cases "formats_end numberTypes s")
    case True
    from ScanNumber_types_end [OF this inp, of u] show ?thesis
      by (simp add: ScanNumber_def split_beta Let_def checkAndReturnNum_eof_mono
          split: option.split)
  next
    case False
    with assms(1) have none: "formats_spec numberTypes s = None" and "num_end s"
      by (simp_all add: number_end_def)
    then have "eof (snd (checkAndReturnNum u \<lparr>pending = s, eof = False\<rparr>))"
      by (simp add: checkAndReturnNum_eof)
    with none show ?thesis
      by (simp add: ScanNumber_def ScanNumber_types_spec [OF False inp, of u]
          formats_result_def assms(2) split_beta Let_def)
  qed
qed

lemma eof_number_result:
  "eof (input (snd (number_result L m))) \<longleftrightarrow> m = None \<and> eof (input L)"
  by (simp add: number_result_def emits_def Let_def split: option.split prod.split)

lemma ScanNumber_eof:
  assumes "input L = \<lparr>pending = s, eof = False\<rparr>"
  shows "eof (input (snd (ScanNumber u L))) \<longleftrightarrow> number_end s"
  using ScanNumber_end [OF _ assms, of u] ScanNumber_spec [OF _ assms, of u]
  by (cases "number_end s") (simp_all add: eof_number_result assms)

section \<open>The rest and the kind of a number token\<close>

lemma formats_spec_sound:
  "formats_spec types s = Some (l, ty, r) \<Longrightarrow>
   strict_suffix r s \<and> ty \<in> tokenType ` set types"
  by (induction types) (auto split: option.splits dest: match_spec_suffix)

lemma num_spec_suffix: "num_spec s = Some (l, r) \<Longrightarrow> strict_suffix r s"
proof -
  assume a: "num_spec s = Some (l, r)"
  then obtain c t where s: "s = c # t"
    by (cases s) (auto simp: num_spec_def)
  with a have "suffix r t"
    by (auto simp: num_spec_def suffix_dropWhile split: if_splits)
  then show ?thesis
    unfolding s using suffix_length_le [of r t]
    by (auto simp: strict_suffix_def suffix_ConsI)
qed

lemma number_spec_sound:
  assumes "number_spec s = Some (l, ty, r)"
  shows "strict_suffix r s" and "ty \<in> {REALNUM, BASE08NUM, BASE16NUM, NUM}"
proof -
  have "strict_suffix r s \<and> ty \<in> {REALNUM, BASE08NUM, BASE16NUM, NUM}"
  proof (cases "formats_spec numberTypes s")
    case (Some x)
    with assms have "formats_spec numberTypes s = Some (l, ty, r)"
      by (simp add: number_spec_def)
    from formats_spec_sound [OF this] show ?thesis
      by (auto simp: numberTypes_def)
  next
    case None
    with assms show ?thesis
      by (auto simp: number_spec_def dest: num_spec_suffix)
  qed
  then show "strict_suffix r s" and "ty \<in> {REALNUM, BASE08NUM, BASE16NUM, NUM}"
    by simp_all
qed

section \<open>Texts on which a number reaches the end\<close>

lemma digit_not_space: "isDigitInBase c b \<Longrightarrow> \<not> isspace c"
proof (cases "islower c")
  case True
  then show ?thesis
    by (auto simp: isspace_def islower_def char_le_code)
next
  case False
  assume "isDigitInBase c b"
  with False show ?thesis
    by (auto simp: isDigitInBase_def isspace_def toupper_def char_le_code split: if_splits)
qed

lemma literal_char_not_space:
  assumes "literal_char marker b c" and "marker \<in> {DOTSTRING, BASE08STRING, BASE16STRING}"
  shows "\<not> isspace c"
  using assms digit_not_space [of c b]
  by (auto simp: literal_char_def string_consts isspace_def char_le_code)

text \<open>A number reaches the end only of a text without white space.\<close>

lemma number_end_solid:
  assumes "number_end s"
  shows "list_all (\<lambda>c. \<not> isspace c) s"
proof -
  from assms consider
    (format) marker b where "reaches_end marker b s"
      "marker \<in> {DOTSTRING, BASE08STRING, BASE16STRING}"
    | (num) "num_end s"
    by (auto simp: number_end_def numberTypes_def)
  then show ?thesis
  proof cases
    case format
    from reaches_end_chars [OF format(1)] show ?thesis
      by (rule list_all_weaken) (rule literal_char_not_space [OF _ format(2)])
  next
    case num
    then have "list_all isdigit s"
      by (cases s) (auto simp: num_end_def list_all_iff)
    then show ?thesis
      by (rule list_all_weaken) (rule isdigit_not_isspace)
  qed
qed

section \<open>Refinement\<close>

text \<open>
  C4: \<^verbatim>\<open>ScanNumber\<close> implements the grammar of number tokens. Whenever a call returns
  with the end flag of the cursor not set, the token and the state are those
  that \<open>number_spec\<close> prescribes for the pending input: the first of the formats
  real, base 8, base 16 that matches, else the plain integer; the lexeme is the
  matched text, the line is the line of the state, and the cursor is in front of
  the rest.
\<close>

theorem ScanNumber_refines:
  assumes "ScanNumber u L = (tok, L')" and "\<not> eof (input L')"
  shows "(tok, L') = number_result L (number_spec (pending (input L)))"
proof -
  obtain s e where "input L = \<lparr>pending = s, eof = e\<rparr>"
    by (cases "input L") simp
  moreover from assms ScanNumber_eof_mono [of L u] have "\<not> eof (input L)"
    by auto
  ultimately have inp: "input L = \<lparr>pending = s, eof = False\<rparr>"
    by simp
  from assms ScanNumber_eof [OF inp, of u] have "\<not> number_end s"
    by simp
  from ScanNumber_spec [OF this inp, of u] assms(1) inp show ?thesis
    by simp
qed

theorem ScanNumber_refines_witness:
  "\<forall>u. ScanNumber u (new_LexicalAnalyzer ''17x08;'') =
     emits (new_LexicalAnalyzer ''17x08;'') ''17x08'' BASE08NUM '';''"
proof
  fix u
  let ?L = "new_LexicalAnalyzer ''17x08;''"
  have ne: "\<not> number_end ''17x08;''"
    by code_simp
  have spec: "number_spec ''17x08;'' = Some (''17x08'', BASE08NUM, '';'')"
    by code_simp
  have "\<not> eof (input (snd (ScanNumber u ?L)))"
    using ScanNumber_eof [of ?L "''17x08;''" u] ne
    by (simp add: new_LexicalAnalyzer_def cursor_of_def)
  from ScanNumber_refines [OF surjective_pairing this] spec
  show "ScanNumber u ?L = emits ?L ''17x08'' BASE08NUM '';''"
    by (simp add: number_result_def new_LexicalAnalyzer_def cursor_of_def)
qed

end
