(* ===== verification/Scanner_Spec.thy ===== *)
theory Scanner_Spec
  imports Scanner_Driver Number_Formats
begin

text \<open>
  What \<^verbatim>\<open>GetToken\<close> delivers, as a function on the text: \<open>token_spec s\<close> is the
  lexeme, the kind and the rest for the token at the front of \<open>s\<close>, where \<open>s\<close>
  starts with a character that is not white space. Operators and punctuation
  have the empty lexeme, as in the source. \<open>token_end s\<close> says that scanning the
  token fetches past the end of \<open>s\<close>.

  The lemmas show that \<^verbatim>\<open>GetToken\<close> on white space followed by \<open>s\<close> returns the
  token of \<open>token_spec s\<close> with the line number of its first character, and what
  it returns when only white space is left.
\<close>

section \<open>The first token of a text\<close>

definition single_kind :: "char \<Rightarrow> TokenType option" where
  "single_kind c =
     (if c = CHR ''.'' then Some DOT
      else if c = CHR ''+'' then Some PLUS
      else if c = CHR ''-'' then Some MINUS
      else if c = CHR ''/'' then Some DIV
      else if c = CHR ''*'' then Some MULT
      else if c = CHR ''='' then Some EQUAL
      else if c = CHR '':'' then Some COLON
      else if c = CHR '','' then Some COMMA
      else if c = CHR '';'' then Some SEMICOLON
      else if c = CHR ''['' then Some LBRAC
      else if c = CHR '']'' then Some RBRAC
      else if c = CHR ''('' then Some LPAREN
      else if c = CHR '')'' then Some RPAREN
      else None)"

definition token_spec :: "cstring \<Rightarrow> cstring \<times> TokenType \<times> cstring" where
  "token_spec s =
     (case s of
        [] \<Rightarrow> ([], END_OF_FILE, [])
      | x # r \<Rightarrow>
          (case single_kind x of
             Some k \<Rightarrow> ([], k, r)
           | None \<Rightarrow>
               if x = CHR ''<'' then
                 (if r \<noteq> [] \<and> hd r = CHR ''='' then ([], LTEQ, tl r)
                  else if r \<noteq> [] \<and> hd r = CHR ''>'' then ([], NOTEQUAL, tl r)
                  else ([], LESS, r))
               else if x = CHR ''>'' then
                 (if r \<noteq> [] \<and> hd r = CHR ''='' then ([], GTEQ, tl r)
                  else ([], GREATER, r))
               else if isdigit x then
                 (case number_spec s of Some t \<Rightarrow> t | None \<Rightarrow> ([], ERROR, s))
               else if isalpha x then
                 (x # takeWhile isalnum r, word_kind (x # takeWhile isalnum r),
                  dropWhile isalnum r)
               else ([], ERROR, r)))"

definition token_end :: "cstring \<Rightarrow> bool" where
  "token_end s =
     (case s of
        [] \<Rightarrow> True
      | x # r \<Rightarrow>
          if x = CHR ''<'' \<or> x = CHR ''>'' then r = []
          else if isdigit x then number_end s
          else if isalpha x then dropWhile isalnum r = []
          else False)"

text \<open>The token and the state that go with a result of \<open>token_spec\<close>.\<close>

definition token_result ::
  "LexicalAnalyzer \<Rightarrow> cstring \<times> TokenType \<times> cstring \<Rightarrow> Token \<times> LexicalAnalyzer"
where
  "token_result L t = (case t of (l, ty, r) \<Rightarrow> emits L l ty r)"

lemma token_result_simp [simp]:
  "token_result L (l, ty, r) =
     (\<lparr>lexeme = l, token_type = ty, Token.line_no = line_no L\<rparr>,
      L\<lparr>tmp := \<lparr>lexeme = l, token_type = ty, Token.line_no = line_no L\<rparr>,
        input := \<lparr>pending = r, eof = False\<rparr>\<rparr>)"
  by (simp add: token_result_def emits_def Let_def)

section \<open>The rest and the kind of a token\<close>

lemma single_kind_not_eof: "single_kind c \<noteq> Some END_OF_FILE"
  by (simp add: single_kind_def)

lemma word_kind_not_eof: "word_kind s \<noteq> END_OF_FILE"
  by (auto simp: word_kind_def IsKeyword_cases)

lemma number_spec_digit: "isdigit x \<Longrightarrow> number_spec (x # r) \<noteq> None"
  by (simp add: number_spec_def num_spec_def split: option.split)

text \<open>A token takes at least one character, and its kind is not \<open>END_OF_FILE\<close>.\<close>

lemma token_spec_sound:
  assumes "s \<noteq> []" and "token_spec s = (l, k, r)"
  shows "strict_suffix r s" and "k \<noteq> END_OF_FILE"
proof -
  from assms(1) obtain x t where s: "s = x # t"
    by (cases s) auto
  have tl: "suffix r t \<Longrightarrow> strict_suffix r (y # t)" for r t :: cstring and y
    using suffix_length_le [of r t] by (auto simp: strict_suffix_def suffix_ConsI)
  have "strict_suffix r s \<and> k \<noteq> END_OF_FILE"
  proof (cases "single_kind x")
    case (Some k')
    with assms(2) s single_kind_not_eof [of x] show ?thesis
      by (auto simp: token_spec_def intro!: tl)
  next
    case None
    show ?thesis
    proof (cases "isdigit x \<and> x \<noteq> CHR ''<'' \<and> x \<noteq> CHR ''>''")
      case True
      with number_spec_digit [of x t] obtain l' k' r' where
        spec: "number_spec (x # t) = Some (l', k', r')"
        by (cases "number_spec (x # t)") auto
      from number_spec_sound [OF this] spec assms(2) None True show ?thesis
        unfolding s by (auto simp: token_spec_def)
    next
      case False
      with assms(2) None word_kind_not_eof [of "x # takeWhile isalnum t"] show ?thesis
        unfolding s
        by (auto simp: token_spec_def suffix_tl suffix_dropWhile split: if_splits intro!: tl)
    qed
  qed
  then show "strict_suffix r s" and "k \<noteq> END_OF_FILE"
    by simp_all
qed

section \<open>The switch\<close>

lemma single_kind_not_class:
  "single_kind c = Some k \<Longrightarrow> \<not> isdigit c \<and> \<not> isalpha c \<and> \<not> isspace c \<and> c \<noteq> CHR ''<'' \<and> c \<noteq> CHR ''>''"
  by (auto simp: single_kind_def ctype_defs char_le_code split: if_splits)

lemma GetToken_switch_single:
  "single_kind c = Some k \<Longrightarrow> GetToken_switch u c L = return_type k L"
  by (auto simp: single_kind_def GetToken_switch_def split: if_splits)

lemma GetToken_switch_other:
  "single_kind c = None \<Longrightarrow>
   GetToken_switch u c L =
     (if c = CHR ''<'' then
        (let (c, inp) = GetChar c (input L);
             L = L\<lparr>input := inp\<rparr>
         in if c = CHR ''='' then return_type LTEQ L
            else if c = CHR ''>'' then return_type NOTEQUAL L
            else return_type LESS (L\<lparr>input := unget_unless_eof c (input L)\<rparr>))
      else if c = CHR ''>'' then
        (let (c, inp) = GetChar c (input L);
             L = L\<lparr>input := inp\<rparr>
         in if c = CHR ''='' then return_type GTEQ L
            else return_type GREATER (L\<lparr>input := unget_unless_eof c (input L)\<rparr>))
      else if isdigit c then ScanNumber u (L\<lparr>input := UngetChar c (input L)\<rparr>)
      else if isalpha c then ScanIdOrKeyword u (L\<lparr>input := UngetChar c (input L)\<rparr>)
      else if EndOfInput (input L) then return_type END_OF_FILE L
      else return_type ERROR L)"
  by (simp add: single_kind_def GetToken_switch_def split: if_splits)

text \<open>A state as \<^verbatim>\<open>GetToken\<close> has prepared it: \<^verbatim>\<open>tmp\<close> has the empty lexeme and the
  current line.\<close>

definition prepared :: "LexicalAnalyzer \<Rightarrow> bool" where
  "prepared L \<longleftrightarrow> lexeme (tmp L) = [] \<and> Token.line_no (tmp L) = line_no L"

lemma return_type_prepared:
  "prepared L \<Longrightarrow>
   return_type k L =
     (\<lparr>lexeme = [], token_type = k, Token.line_no = line_no L\<rparr>,
      L\<lparr>tmp := \<lparr>lexeme = [], token_type = k, Token.line_no = line_no L\<rparr>\<rparr>)"
  by (cases L; cases "tmp L") (simp add: return_type_def prepared_def Let_def)

lemma prepared_input [simp]: "prepared (L\<lparr>input := inp\<rparr>) = prepared L"
  by (simp add: prepared_def)

lemma GetToken_switch_spec:
  assumes "prepared L" and "input L = \<lparr>pending = r, eof = False\<rparr>" and "\<not> token_end (x # r)"
  shows "GetToken_switch u x L = token_result L (token_spec (x # r))"
proof (cases "single_kind x")
  case (Some k)
  with assms(1,2) show ?thesis
    by (simp add: GetToken_switch_single return_type_prepared token_spec_def input_same)
next
  case None
  note sw = GetToken_switch_other [OF None]
  consider (lt) "x = CHR ''<''" | (gt) "x = CHR ''>''" | (digit) "isdigit x"
    | (alpha) "isalpha x" "\<not> isdigit x" "x \<noteq> CHR ''<''" "x \<noteq> CHR ''>''"
    | (other) "\<not> isalpha x" "\<not> isdigit x" "x \<noteq> CHR ''<''" "x \<noteq> CHR ''>''"
    by blast
  then show ?thesis
  proof cases
    case lt
    with assms(3) obtain y r' where r: "r = y # r'"
      by (cases r) (simp_all add: token_end_def)
    with lt None assms(1,2) show ?thesis
      unfolding sw
      by (cases L) (simp add: token_spec_def Let_def prepared_def return_type_def)
  next
    case gt
    with assms(3) obtain y r' where r: "r = y # r'"
      by (cases r) (simp_all add: token_end_def)
    with gt None assms(1,2) show ?thesis
      unfolding sw
      by (cases L) (simp add: token_spec_def Let_def prepared_def return_type_def)
  next
    case digit
    then have x: "x \<noteq> CHR ''<''" "x \<noteq> CHR ''>''"
      by (auto simp: isdigit_def char_le_code)
    with digit assms(3) have ne: "\<not> number_end (x # r)"
      by (simp add: token_end_def)
    have inp: "input (L\<lparr>input := UngetChar x (input L)\<rparr>) = \<lparr>pending = x # r, eof = False\<rparr>"
      by (simp add: assms(2))
    from number_spec_digit [OF digit, of r] obtain l ty r' where
      spec: "number_spec (x # r) = Some (l, ty, r')"
      by (cases "number_spec (x # r)") auto
    from ScanNumber_spec [OF ne inp, of u] digit x None spec show ?thesis
      by (simp add: sw token_spec_def number_result_def emits_def Let_def)
  next
    case alpha
    with assms(3) have ne: "dropWhile isalnum r \<noteq> []"
      by (simp add: token_end_def)
    have inp: "input (L\<lparr>input := UngetChar x (input L)\<rparr>) = \<lparr>pending = x # r, eof = False\<rparr>"
      by (simp add: assms(2))
    from ScanIdOrKeyword_fresh [OF alpha(1) inp, of u] alpha None ne show ?thesis
      by (simp add: sw token_spec_def Let_def del: dropWhile_eq_Nil_conv)
  next
    case other
    with None assms(1,2) show ?thesis
      by (simp add: sw token_spec_def return_type_prepared input_same)
  qed
qed

section \<open>The next token\<close>

text \<open>White space \<open>ws\<close>, then a text \<open>s\<close> that starts with another character: the
  token is that of \<open>token_spec s\<close>, its line is the line of the state plus the
  newlines of \<open>ws\<close>, and the cursor is at the rest.\<close>

lemma GetToken_spec:
  assumes "tokens L = []" and "list_all isspace ws"
    and "input L = \<lparr>pending = ws @ s, eof = False\<rparr>"
    and "s \<noteq> []" and "\<not> isspace (hd s)" and "\<not> token_end s"
  shows "GetToken u L = token_result (L\<lparr>line_no := line_no L + newlines ws\<rparr>) (token_spec s)"
proof -
  from assms(4) obtain x r where s: "s = x # r"
    by (cases s) auto
  let ?ln = "line_no L + newlines ws"
  let ?L = "L\<lparr>line_no := ?ln,
      tmp := (tmp L)\<lparr>lexeme := EMPTYSTRING, Token.line_no := ?ln\<rparr>,
      input := \<lparr>pending = r, eof = False\<rparr>\<rparr>"
  from assms(5) s have x: "\<not> isspace x"
    by simp
  from assms(3) s have "input L = \<lparr>pending = ws @ x # r, eof = False\<rparr>"
    by simp
  note skip = SkipSpace_fresh [OF assms(2) x this, of u]
  have get: "GetToken u L = GetToken_switch u x ?L"
    using assms(1) by (simp add: GetToken_def skip)
  have "prepared ?L"
    by (simp add: prepared_def EMPTYSTRING_def)
  moreover have "input ?L = \<lparr>pending = r, eof = False\<rparr>"
    by simp
  ultimately have "GetToken_switch u x ?L = token_result ?L (token_spec (x # r))"
    using assms(6) unfolding s by (rule GetToken_switch_spec)
  with get show ?thesis
    unfolding s by (cases "token_spec (x # r)") simp
qed

section \<open>A token that ends with the input\<close>

text \<open>
  When \<open><\<close> or \<open>>\<close> is the last character, or a word runs up to the end, the scan
  fetches past the end. The token is still the one of \<open>token_spec\<close>; the cursor
  ends with nothing pending and the end seen. (A number that runs up to the end
  is not covered: the attempts that follow the first one then work on a cursor
  that has seen the end.)
\<close>

definition emits_last ::
  "LexicalAnalyzer \<Rightarrow> cstring \<Rightarrow> TokenType \<Rightarrow> Token \<times> LexicalAnalyzer"
where
  "emits_last L l ty =
     (let tok = \<lparr>lexeme = l, token_type = ty, Token.line_no = line_no L\<rparr>
      in (tok, L\<lparr>tmp := tok, input := \<lparr>pending = [], eof = True\<rparr>\<rparr>))"

lemma GetToken_switch_last:
  assumes "prepared L" and "input L = \<lparr>pending = r, eof = False\<rparr>"
    and "token_end (x # r)" and "\<not> isdigit x"
  shows "GetToken_switch u x L =
     (case token_spec (x # r) of (l, k, r') \<Rightarrow> emits_last L l k)"
proof -
  from assms(3,4) consider
    (angle) "x = CHR ''<'' \<or> x = CHR ''>''" "r = []"
    | (word) "isalpha x" "dropWhile isalnum r = []" "x \<noteq> CHR ''<''" "x \<noteq> CHR ''>''"
    by (auto simp: token_end_def split: if_splits)
  then show ?thesis
  proof cases
    case angle
    have lt: "single_kind (CHR ''<'') = None" and gt: "single_kind (CHR ''>'') = None"
      by (simp_all add: single_kind_def)
    from angle(1) show ?thesis
    proof
      assume "x = CHR ''<''"
      with angle(2) assms(1,2) show ?thesis
        by (cases L)
           (simp add: GetToken_switch_other [OF lt] token_spec_def lt Let_def prepared_def
             return_type_def emits_last_def)
    next
      assume "x = CHR ''>''"
      with angle(2) assms(1,2) show ?thesis
        by (cases L)
           (simp add: GetToken_switch_other [OF gt] token_spec_def gt Let_def prepared_def
             return_type_def emits_last_def)
    qed
  next
    case word
    then have none: "single_kind x = None"
      using single_kind_not_class [of x] by (cases "single_kind x") auto
    have inp: "input (L\<lparr>input := UngetChar x (input L)\<rparr>) = \<lparr>pending = x # r, eof = False\<rparr>"
      by (simp add: assms(2))
    from ScanIdOrKeyword_fresh [OF word(1) inp, of u] word assms(4) show ?thesis
      by (simp add: GetToken_switch_other [OF none] token_spec_def none Let_def emits_last_def
          del: dropWhile_eq_Nil_conv)
  qed
qed

lemma GetToken_last:
  assumes "tokens L = []" and "list_all isspace ws"
    and "input L = \<lparr>pending = ws @ s, eof = False\<rparr>"
    and "s \<noteq> []" and "\<not> isspace (hd s)" and "token_end s" and "\<not> isdigit (hd s)"
  shows "GetToken u L =
     (case token_spec s of (l, k, r) \<Rightarrow>
        emits_last (L\<lparr>line_no := line_no L + newlines ws\<rparr>) l k)"
proof -
  from assms(4) obtain x r where s: "s = x # r"
    by (cases s) auto
  let ?ln = "line_no L + newlines ws"
  let ?L = "L\<lparr>line_no := ?ln,
      tmp := (tmp L)\<lparr>lexeme := EMPTYSTRING, Token.line_no := ?ln\<rparr>,
      input := \<lparr>pending = r, eof = False\<rparr>\<rparr>"
  from assms(5,7) s have x: "\<not> isspace x" "\<not> isdigit x"
    by simp_all
  from assms(3) s have "input L = \<lparr>pending = ws @ x # r, eof = False\<rparr>"
    by simp
  note skip = SkipSpace_fresh [OF assms(2) x(1) this, of u]
  have get: "GetToken u L = GetToken_switch u x ?L"
    using assms(1) by (simp add: GetToken_def skip)
  have "prepared ?L"
    by (simp add: prepared_def EMPTYSTRING_def)
  moreover have "input ?L = \<lparr>pending = r, eof = False\<rparr>"
    by simp
  ultimately have "GetToken_switch u x ?L =
      (case token_spec (x # r) of (l, k, r') \<Rightarrow> emits_last ?L l k)"
    using assms(6) x(2) unfolding s by (rule GetToken_switch_last)
  with get show ?thesis
    unfolding s by (cases "token_spec (x # r)") (simp add: emits_last_def Let_def)
qed

section \<open>The next token at the end of the input\<close>

text \<open>
  When nothing is pending, the fetches of \<^verbatim>\<open>SkipSpace\<close> and \<^verbatim>\<open>GetToken\<close> fail and both
  functions go on with the value their variable \<open>c\<close> had before. \<open>benign u\<close> says
  that these values are harmless: the one of \<^verbatim>\<open>SkipSpace\<close> is not a newline and the
  one of \<^verbatim>\<open>GetToken\<close> is no character that the switch has a case for.
\<close>

definition benign :: "Uninit \<Rightarrow> bool" where
  "benign u \<longleftrightarrow>
     c_SkipSpace u \<noteq> newline \<and> single_kind (c_GetToken u) = None
     \<and> c_GetToken u \<noteq> CHR ''<'' \<and> c_GetToken u \<noteq> CHR ''>''
     \<and> \<not> isdigit (c_GetToken u) \<and> \<not> isalpha (c_GetToken u)"

text \<open>An example of harmless values: every unassigned variable holds the null
  character.\<close>

definition null_init :: Uninit where
  "null_init =
     \<lparr>c_SkipSpace = CHR 0x00, c_verifyPatternMatch = CHR 0x00,
      c_checkAndReturnNum = CHR 0x00, c_matchToBase = CHR 0x00,
      c_ScanIdOrKeyword = CHR 0x00, c_GetToken = CHR 0x00\<rparr>"

lemma benign_null_init: "benign null_init"
  by (simp add: benign_def null_init_def single_kind_def ctype_defs char_le_code)

text \<open>The end-of-file token on line \<open>ln\<close>, and the state after it was delivered.\<close>

definition emits_eof :: "LexicalAnalyzer \<Rightarrow> int \<Rightarrow> Token \<times> LexicalAnalyzer" where
  "emits_eof L ln =
     (let tok = \<lparr>lexeme = [], token_type = END_OF_FILE, Token.line_no = ln\<rparr>
      in (tok, L\<lparr>line_no := ln, tmp := tok, input := \<lparr>pending = [], eof = True\<rparr>\<rparr>))"

lemma GetToken_switch_end:
  assumes "single_kind c = None" and "c \<noteq> CHR ''<''" and "c \<noteq> CHR ''>''"
    and "\<not> isdigit c" and "\<not> isalpha c" and "prepared L"
    and "input L = \<lparr>pending = [], eof = True\<rparr>"
  shows "GetToken_switch u c L = emits_eof L (line_no L)"
  using assms
  by (cases L)
     (simp add: GetToken_switch_other return_type_prepared emits_eof_def Let_def)

text \<open>Nothing pending at all.\<close>

lemma GetToken_exhausted:
  assumes "benign u" and "tokens L = []" and "pending (input L) = []"
  shows "GetToken u L = emits_eof L (line_no L)"
proof -
  let ?L = "L\<lparr>tmp := (tmp L)\<lparr>lexeme := EMPTYSTRING, Token.line_no := line_no L\<rparr>,
      input := \<lparr>pending = [], eof = True\<rparr>\<rparr>"
  from assms(1) have skip: "SkipSpace u L = (False, L\<lparr>input := \<lparr>pending = [], eof = True\<rparr>\<rparr>)"
    by (simp add: SkipSpace_end [OF assms(3)] benign_def)
  have "GetToken u L = GetToken_switch u (c_GetToken u) ?L"
    using assms(2) by (simp add: GetToken_def skip)
  also have "\<dots> = emits_eof ?L (line_no ?L)"
    using assms(1)
    by (intro GetToken_switch_end) (simp_all add: benign_def prepared_def EMPTYSTRING_def)
  finally show ?thesis
    by (cases L) (simp add: emits_eof_def Let_def)
qed

text \<open>White space up to the end of the input.\<close>

lemma GetToken_only_space:
  assumes "benign u" and "tokens L = []" and "list_all isspace ws" and "ws \<noteq> []"
    and "input L = \<lparr>pending = ws, eof = False\<rparr>"
  shows "GetToken u L =
     emits_eof L (line_no L + newlines ws + (if last ws = newline then 1 else 0))"
proof -
  define ln where "ln = line_no L + newlines ws + (if last ws = newline then 1 else 0)"
  let ?L = "L\<lparr>line_no := ln,
      tmp := (tmp L)\<lparr>lexeme := EMPTYSTRING, Token.line_no := ln\<rparr>,
      input := \<lparr>pending = [], eof = True\<rparr>\<rparr>"
  have skip: "SkipSpace u L = (True, L\<lparr>line_no := ln, input := \<lparr>pending = [], eof = True\<rparr>\<rparr>)"
    unfolding ln_def by (rule SkipSpace_only [OF assms(3-5)])
  have "GetToken u L = GetToken_switch u (c_GetToken u) ?L"
    using assms(2) by (simp add: GetToken_def skip)
  also have "\<dots> = emits_eof ?L (line_no ?L)"
    using assms(1)
    by (intro GetToken_switch_end) (simp_all add: benign_def prepared_def EMPTYSTRING_def)
  finally have "GetToken u L = emits_eof L ln"
    by (cases L) (simp add: emits_eof_def Let_def)
  then show ?thesis
    unfolding ln_def .
qed

end
