(* ===== verification/Stream_Spec.thy ===== *)
theory Stream_Spec
  imports Lexer_Main Scanner_Spec
begin

text \<open>
  The tokens of a whole text and the output of the program. \<open>stream_spec ln s\<close> is
  the list of tokens that \<^verbatim>\<open>main\<close> prints for the text \<open>s\<close> when the line counter
  starts at \<open>ln\<close>: the tokens of \<open>token_spec\<close> separated by white space, each with
  the line of its first character, and one \<open>END_OF_FILE\<close> token at the end. It is
  \<open>None\<close> for a text that ends inside a number, where the outcome depends on
  how the attempts behave after the end was seen.

  The theorems: for values of the unassigned variables that are harmless
  (\<open>benign\<close>), the program returns on every text for which \<open>stream_spec\<close> is
  defined and prints exactly its tokens; and \<open>stream_spec\<close> is defined on every
  text that ends with white space.
\<close>

section \<open>The tokens of a text\<close>

definition token_at :: "int \<Rightarrow> cstring \<times> TokenType \<times> cstring \<Rightarrow> Token" where
  "token_at ln t = (case t of (l, k, r) \<Rightarrow> \<lparr>lexeme = l, token_type = k, Token.line_no = ln\<rparr>)"

definition eof_token :: "int \<Rightarrow> Token" where
  "eof_token ln = \<lparr>lexeme = [], token_type = END_OF_FILE, Token.line_no = ln\<rparr>"

definition token_rest :: "cstring \<Rightarrow> cstring" where
  "token_rest s = snd (snd (token_spec s))"

lemma strict_suffix_length: "strict_suffix r s \<Longrightarrow> length r < length s"
  by (auto simp: strict_suffix_def suffix_def)

lemma token_rest_suffix: "s \<noteq> [] \<Longrightarrow> strict_suffix (token_rest s) s"
  using token_spec_sound(1) [of s "fst (token_spec s)" "fst (snd (token_spec s))"]
  by (simp add: token_rest_def)

lemma token_rest_shorter:
  "dropWhile isspace s \<noteq> [] \<Longrightarrow> length (token_rest (dropWhile isspace s)) < length s"
  using strict_suffix_length [OF token_rest_suffix, of "dropWhile isspace s"]
    length_dropWhile_le [of isspace s]
  by simp

function stream_spec :: "int \<Rightarrow> cstring \<Rightarrow> Token list option" where
  "stream_spec ln s =
     (if dropWhile isspace s = []
      then Some [eof_token (ln + newlines s + (if s \<noteq> [] \<and> last s = newline then 1 else 0))]
      else if token_end (dropWhile isspace s)
      then (if isdigit (hd (dropWhile isspace s)) then None
            else Some [token_at (ln + newlines (takeWhile isspace s))
                         (token_spec (dropWhile isspace s)),
                       eof_token (ln + newlines (takeWhile isspace s))])
      else map_option
             (Cons (token_at (ln + newlines (takeWhile isspace s))
                      (token_spec (dropWhile isspace s))))
             (stream_spec (ln + newlines (takeWhile isspace s))
                (token_rest (dropWhile isspace s))))"
  by pat_completeness auto
termination
  by (relation "measure (\<lambda>(ln, s). length s)") (simp_all add: token_rest_shorter)

declare stream_spec.simps [simp del]

text \<open>The text that the program writes for a list of tokens.\<close>

definition printed :: "Token list \<Rightarrow> cstring" where
  "printed toks = concat (map Print toks)"

lemma printed_simps [simp]:
  "printed [] = []" "printed (t # ts) = Print t @ printed ts"
  by (simp_all add: printed_def)

section \<open>The program prints the tokens of the text\<close>

lemma token_at_not_eof: "s \<noteq> [] \<Longrightarrow> token_type (token_at ln (token_spec s)) \<noteq> END_OF_FILE"
  using token_spec_sound(2) [of s "fst (token_spec s)" "fst (snd (token_spec s))"]
  by (cases "token_spec s") (simp add: token_at_def)

lemma turn_end:
  assumes "benign u" and "tokens L = []" and "pending (input L) = []"
  shows "turn u L out = Some (out @ Print (eof_token (line_no L)))"
  using GetToken_exhausted [OF assms]
  by (intro turn_last) (simp_all add: emits_eof_def eof_token_def Let_def)

lemma turn_stream:
  assumes "benign u"
  shows "tokens L = [] \<Longrightarrow> input L = \<lparr>pending = s, eof = False\<rparr> \<Longrightarrow>
    stream_spec (line_no L) s = Some toks \<Longrightarrow> turn u L out = Some (out @ printed toks)"
proof (induction "length s" arbitrary: s L toks out rule: less_induct)
  case less
  let ?ws = "takeWhile isspace s" and ?s = "dropWhile isspace s"
  let ?ln = "line_no L + newlines ?ws"
  have ws: "list_all isspace ?ws"
    by simp
  from less.prems(2) have inp: "input L = \<lparr>pending = ?ws @ ?s, eof = False\<rparr>"
    by simp
  note spec = less.prems(3) [unfolded stream_spec.simps [of "line_no L" s]]
  consider (space) "?s = []" | (last) "?s \<noteq> []" "token_end ?s" | (token) "?s \<noteq> []" "\<not> token_end ?s"
    by blast
  then show ?case
  proof cases
    case space
    then have all: "list_all isspace s"
      by (simp add: dropWhile_Nil_conv del: dropWhile_eq_Nil_conv)
    from spec space have toks:
      "toks = [eof_token (line_no L + newlines s + (if s \<noteq> [] \<and> last s = newline then 1 else 0))]"
      by (simp del: dropWhile_eq_Nil_conv)
    show ?thesis
    proof (cases "s = []")
      case True
      with turn_end [OF assms less.prems(1), of out] less.prems(2) toks show ?thesis
        by simp
    next
      case False
      define ln where "ln = line_no L + newlines s + (if last s = newline then 1 else 0)"
      from GetToken_only_space [OF assms less.prems(1) all False less.prems(2)]
      have "GetToken u L = (eof_token ln, snd (emits_eof L ln))"
        by (simp add: emits_eof_def eof_token_def Let_def ln_def)
      from turn_last [OF this, of out] False toks show ?thesis
        by (simp add: eof_token_def ln_def)
    qed
  next
    case last
    then have hd: "\<not> isspace (hd ?s)"
      using hd_dropWhile [of isspace s] by simp
    from spec last have digit: "\<not> isdigit (hd ?s)"
      and toks: "toks = [token_at ?ln (token_spec ?s), eof_token ?ln]"
      by (simp_all split: if_splits del: dropWhile_eq_Nil_conv)
    obtain l k r where t: "token_spec ?s = (l, k, r)"
      by (cases "token_spec ?s")
    let ?tok = "\<lparr>lexeme = l, token_type = k, Token.line_no = ?ln\<rparr>"
    let ?L = "L\<lparr>line_no := ?ln, tmp := ?tok, input := \<lparr>pending = [], eof = True\<rparr>\<rparr>"
    from GetToken_last [OF less.prems(1) ws inp last(1) hd last(2) digit, of u] t
    have get: "GetToken u L = (?tok, ?L)"
      by (simp add: emits_last_def Let_def)
    from token_at_not_eof [OF last(1), of ?ln] t have "token_type ?tok \<noteq> END_OF_FILE"
      by (simp add: token_at_def)
    from turn_next [OF get this, of out] turn_end [OF assms, of ?L "out @ Print ?tok"]
      less.prems(1) toks t
    show ?thesis
      by (simp add: token_at_def)
  next
    case token
    then have hd: "\<not> isspace (hd ?s)"
      using hd_dropWhile [of isspace s] by simp
    from spec token obtain toks' where toks: "toks = token_at ?ln (token_spec ?s) # toks'"
      and rest: "stream_spec ?ln (token_rest ?s) = Some toks'"
      by (auto simp del: dropWhile_eq_Nil_conv)
    obtain l k r where t: "token_spec ?s = (l, k, r)"
      by (cases "token_spec ?s")
    then have r: "token_rest ?s = r"
      by (simp add: token_rest_def)
    let ?tok = "\<lparr>lexeme = l, token_type = k, Token.line_no = ?ln\<rparr>"
    let ?L = "L\<lparr>line_no := ?ln, tmp := ?tok, input := \<lparr>pending = r, eof = False\<rparr>\<rparr>"
    from GetToken_spec [OF less.prems(1) ws inp token(1) hd token(2), of u] t
    have get: "GetToken u L = (?tok, ?L)"
      by simp
    from token_at_not_eof [OF token(1), of ?ln] t have "token_type ?tok \<noteq> END_OF_FILE"
      by (simp add: token_at_def)
    note step = turn_next [OF get this, of out]
    from token_rest_shorter [OF token(1)] r have "length r < length s"
      by simp
    from less.hyps [OF this, of ?L toks' "out @ Print ?tok"] less.prems(1) rest r
    have "turn u ?L (out @ Print ?tok) = Some ((out @ Print ?tok) @ printed toks')"
      by simp
    with step toks t show ?thesis
      by (simp add: token_at_def)
  qed
qed

lemma main_stream:
  assumes "benign u" and "stream_spec 1 s = Some toks"
  shows "main u s = Some (printed toks)"
  using turn_stream [OF assms(1), of "new_LexicalAnalyzer s" s toks "[]"] assms(2)
  by (simp add: main_turn new_LexicalAnalyzer_def cursor_of_def)

section \<open>Texts with a token stream\<close>

lemma suffix_last: "suffix r s \<Longrightarrow> r \<noteq> [] \<Longrightarrow> last r = last s"
  by (auto simp: suffix_def)

text \<open>A text that ends with white space does not end inside a number, nor
  inside any other token.\<close>

lemma spaced_not_token_end:
  assumes "s \<noteq> []" and "isspace (last s)" and "\<not> isspace (hd s)"
  shows "\<not> token_end s"
proof
  assume e: "token_end s"
  from assms(1) obtain x r where s: "s = x # r"
    by (cases s) auto
  from assms s have r: "r \<noteq> []" "isspace (last r)"
    by (auto split: if_splits)
  have "list_all (\<lambda>c. \<not> isspace c) s"
  proof (cases "isdigit x")
    case True
    with e s have "number_end s"
      by (auto simp: token_end_def isdigit_def char_le_code split: if_splits)
    then show ?thesis
      by (rule number_end_solid)
  next
    case False
    with e s r have "isalpha x" and "dropWhile isalnum r = []"
      by (auto simp: token_end_def split: if_splits)
    then have "list_all isalnum s"
      unfolding s by (simp add: dropWhile_Nil_conv del: dropWhile_eq_Nil_conv)
    then show ?thesis
      by (rule list_all_weaken) (auto simp: isalnum_def dest: isalpha_not_isspace isdigit_not_isspace)
  qed
  with assms(1,2) show False
    by (auto simp: list_all_iff)
qed

lemma stream_spec_total:
  assumes "s = [] \<or> isspace (last s)"
  shows "stream_spec ln s \<noteq> None"
  using assms
proof (induction "length s" arbitrary: s ln rule: less_induct)
  case less
  let ?s = "dropWhile isspace s"
  show ?case
  proof (cases "?s = []")
    case True
    then show ?thesis
      by (subst stream_spec.simps) (simp del: dropWhile_eq_Nil_conv)
  next
    case False
    with less.prems have sp: "isspace (last ?s)"
      using suffix_last [OF suffix_dropWhile [of isspace s] False] by auto
    from False have "\<not> isspace (hd ?s)"
      using hd_dropWhile [of isspace s] by simp
    with False sp have ne: "\<not> token_end ?s"
      by (intro spaced_not_token_end)
    let ?r = "token_rest ?s"
    have "?r = [] \<or> isspace (last ?r)"
    proof (cases "?r = []")
      case True
      then show ?thesis ..
    next
      case r: False
      from token_rest_suffix [OF False] have "suffix ?r ?s"
        by (simp add: strict_suffix_def)
      from suffix_last [OF this r] sp show ?thesis
        by simp
    qed
    from less.hyps [OF token_rest_shorter [OF False] this]
    show ?thesis
      using False ne by (subst stream_spec.simps) (simp del: dropWhile_eq_Nil_conv)
  qed
qed

section \<open>The shape of a token stream\<close>

text \<open>What the tokens of a text look like: the last one, and only the last one,
  is \<open>END_OF_FILE\<close>, and the line numbers start at the line the counter had and
  never decrease.\<close>

definition well_formed :: "int \<Rightarrow> Token list \<Rightarrow> bool" where
  "well_formed ln toks \<longleftrightarrow>
     toks \<noteq> [] \<and> token_type (last toks) = END_OF_FILE
     \<and> list_all (\<lambda>t. token_type t \<noteq> END_OF_FILE) (butlast toks)
     \<and> sorted (ln # map Token.line_no toks)"

lemma well_formed_eof: "ln \<le> ln' \<Longrightarrow> well_formed ln [eof_token ln']"
  by (simp add: well_formed_def eof_token_def)

lemma well_formed_Cons:
  assumes "well_formed ln' toks" and "ln \<le> ln'" and "token_type t \<noteq> END_OF_FILE"
    and "Token.line_no t = ln'"
  shows "well_formed ln (t # toks)"
  using assms by (auto simp: well_formed_def)

lemma stream_spec_well_formed:
  "stream_spec ln s = Some toks \<Longrightarrow> well_formed ln toks"
proof (induction "length s" arbitrary: s ln toks rule: less_induct)
  case less
  let ?s = "dropWhile isspace s"
  let ?ln = "ln + newlines (takeWhile isspace s)"
  let ?t = "token_at ?ln (token_spec ?s)"
  note spec = less.prems [unfolded stream_spec.simps [of ln s]]
  have line: "Token.line_no ?t = ?ln"
    by (cases "token_spec ?s") (simp add: token_at_def)
  consider (space) "?s = []" | (last) "?s \<noteq> []" "token_end ?s" | (token) "?s \<noteq> []" "\<not> token_end ?s"
    by blast
  then show ?case
  proof cases
    case space
    with spec show ?thesis
      by (auto simp: well_formed_eof simp del: dropWhile_eq_Nil_conv)
  next
    case last
    with spec have toks: "toks = [?t, eof_token ?ln]"
      by (simp split: if_splits del: dropWhile_eq_Nil_conv)
    have "well_formed ?ln [eof_token ?ln]"
      by (simp add: well_formed_eof)
    then show ?thesis
      unfolding toks
      by (rule well_formed_Cons) (simp_all add: token_at_not_eof [OF last(1)] line)
  next
    case token
    with spec obtain toks' where toks: "toks = ?t # toks'"
      and rest: "stream_spec ?ln (token_rest ?s) = Some toks'"
      by (auto simp del: dropWhile_eq_Nil_conv)
    from less.hyps [OF token_rest_shorter [OF token(1)] rest] show ?thesis
      unfolding toks
      by (rule well_formed_Cons) (simp_all add: token_at_not_eof [OF token(1)] line)
  qed
qed

end
