(* ===== verification/Number_Cases.thy ===== *)
theory Number_Cases
  imports Number_Formats
begin

text \<open>
  The shapes of number tokens: what \<open>number_spec\<close> and with it \<^verbatim>\<open>ScanNumber\<close> make of
  a text that starts with digits and a marker, with digits alone, with \<open>0\<close>, and
  with \<open>0.\<close>. Each shape is first a fact about the grammar; the theorems on
  \<^verbatim>\<open>ScanNumber\<close> follow from it by \<open>ScanNumber_spec\<close>.
\<close>

section \<open>Digits of the three bases\<close>

lemma digit_8_10: "isDigitInBase c 8 \<Longrightarrow> isDigitInBase c 10"
  by (simp add: isDigitInBase_def)

lemma digit_10_16: "isDigitInBase c 10 \<Longrightarrow> isDigitInBase c 16"
  by (auto simp: isDigitInBase_def char_le_code of_char_int_nat)

lemma positive_8_10: "isPositiveDigitInBase c 8 \<Longrightarrow> isPositiveDigitInBase c 10"
  by (simp add: isPositiveDigitInBase_def)

lemma positive_10_16: "isPositiveDigitInBase c 10 \<Longrightarrow> isPositiveDigitInBase c 16"
  by (auto simp: isPositiveDigitInBase_def char_le_code of_char_int_nat)

lemma digits_8_10: "list_all (digit_in 8) ds \<Longrightarrow> list_all (digit_in 10) ds"
  by (erule list_all_weaken) (rule digit_8_10)

lemma digits_10_16: "list_all (digit_in 10) ds \<Longrightarrow> list_all (digit_in 16) ds"
  by (erule list_all_weaken) (rule digit_10_16)

section \<open>An attempt after its leading digits\<close>

text \<open>A positive digit, digits, and a character \<open>y\<close> that is not a digit: the
  attempt is decided by what starts at \<open>y\<close>.\<close>

lemma match_spec_digits:
  assumes "isPositiveDigitInBase c b" and "list_all (digit_in b) ds" and "\<not> isDigitInBase y b"
  shows "match_spec marker b (c # ds @ y # r) =
      map_option (\<lambda>(l, r'). (c # ds @ l, r')) (marker_spec marker (fraction_spec b) (y # r))"
    and "reaches_end marker b (c # ds @ y # r) = marker_end marker (fraction_end b) (y # r)"
  using assms by (simp_all add: match_spec_def reaches_end_def isPositiveDigitInBase_not_zero)

lemma match_spec_zero:
  "match_spec marker b (CHR ''0'' # t) =
     map_option (\<lambda>(l, r). (CHR ''0'' # l, r)) (marker_spec marker (zeros_spec b) t)"
  "reaches_end marker b (CHR ''0'' # t) = marker_end marker (zeros_end b) t"
  by (simp_all add: match_spec_def reaches_end_def)

text \<open>The marker is not there: the first character differs.\<close>

lemma marker_absent:
  assumes "marker \<noteq> []" and "y \<noteq> hd marker"
  shows "marker_spec marker after (y # r) = None"
    and "\<not> marker_end marker after_end (y # r)"
proof -
  from assms obtain m ms where "marker = m # ms" and "y \<noteq> m"
    by (cases marker) auto
  then show "marker_spec marker after (y # r) = None"
    and "\<not> marker_end marker after_end (y # r)"
    by (simp_all add: marker_spec_def marker_end_def)
qed

text \<open>The marker is there and is not the point: the literal ends with it.\<close>

lemma marker_present:
  assumes "marker \<noteq> DOTSTRING"
  shows "marker_spec marker after (marker @ r) = Some (marker, r)"
    and "\<not> marker_end marker after_end (marker @ r)"
  using assms by (simp_all add: marker_spec_def marker_end_def)

lemma point_present:
  "marker_spec DOTSTRING after (CHR ''.'' # r) =
     map_option (\<lambda>(l, r'). (CHR ''.'' # l, r')) (after r)"
  "marker_end DOTSTRING after_end (CHR ''.'' # r) = after_end r"
  by (simp_all add: marker_spec_def marker_end_def DOTSTRING_def)

lemmas marker_heads [simp] =
  marker_absent [of DOTSTRING, unfolded DOTSTRING_def, simplified]
  marker_absent [of BASE08STRING, unfolded BASE08STRING_def, simplified]
  marker_absent [of BASE16STRING, unfolded BASE16STRING_def, simplified]

text \<open>The run of digits stops at a character with which the marker does not
  start: the attempt fails without reaching the end.\<close>

lemma match_spec_blocked:
  assumes "isPositiveDigitInBase c b" and "dropWhile (digit_in b) t = y # r"
    and "marker \<noteq> []" and "y \<noteq> hd marker"
  shows "match_spec marker b (c # t) = None" and "\<not> reaches_end marker b (c # t)"
  using assms marker_absent(1) [where marker = marker and y = y and after = "fraction_spec b"]
    marker_absent(2) [where marker = marker and y = y and after_end = "fraction_end b"]
  by (simp_all add: match_spec_def reaches_end_def isPositiveDigitInBase_not_zero
      del: dropWhile_eq_Nil_conv)

lemma match_spec_no_digit:
  assumes "c \<noteq> CHR ''0''" and "\<not> isPositiveDigitInBase c b"
  shows "match_spec marker b (c # t) = None" and "\<not> reaches_end marker b (c # t)"
  using assms by (simp_all add: match_spec_def reaches_end_def)

text \<open>Where a run of \<open>P\<close> stops in \<open>ds @ y # r\<close> when \<open>y\<close> is not in \<open>P\<close>: at \<open>y\<close> or at an
  element of \<open>ds\<close>.\<close>

lemma run_stops:
  assumes "\<not> P y"
  obtains (whole) "list_all P ds" and "dropWhile P (ds @ y # r) = y # r"
  | (inner) z r' where "z \<in> set ds" and "\<not> P z" and "dropWhile P (ds @ y # r) = z # r'"
proof (cases "list_all P ds")
  case True
  with assms have "dropWhile P (ds @ y # r) = y # r"
    by simp
  with True show ?thesis
    by (rule whole)
next
  case False
  then have nall: "\<not> (\<forall>x\<in>set ds. P x)"
    by (simp add: list_all_iff)
  then obtain z zs where z: "dropWhile P ds = z # zs"
    by (cases "dropWhile P ds") auto
  have "dropWhile P (ds @ y # r) = dropWhile P ds @ y # r"
    by (subst dropWhile_append) (simp only: nall if_False)
  with z have run: "dropWhile P (ds @ y # r) = z # zs @ y # r"
    by simp
  from z have "z \<in> set ds"
    using set_dropWhileD [of z P ds] by simp
  then show ?thesis
    using dropWhile_hd [OF z] run by (rule inner)
qed

lemma positive_decimal: "isPositiveDigitInBase c 10 \<longleftrightarrow> isdigit c \<and> c \<noteq> CHR ''0''"
proof
  assume "isPositiveDigitInBase c 10"
  then show "isdigit c \<and> c \<noteq> CHR ''0''"
    by (metis isPositiveDigitInBase_imp_digit isPositiveDigitInBase_not_zero isDigitInBase_10)
next
  assume a: "isdigit c \<and> c \<noteq> CHR ''0''"
  then have "isDigitInBase c 10"
    by (simp add: isDigitInBase_10)
  with a show "isPositiveDigitInBase c 10"
    using isDigitInBase_iff_positive [of c 10] by blast
qed

lemma digits_decimal: "list_all (digit_in 10) ds \<longleftrightarrow> list_all isdigit ds"
  by (simp add: isDigitInBase_10)

section \<open>The grammar on the shapes of literals\<close>

text \<open>Unfolding of \<open>number_spec\<close> and \<open>number_end\<close> into the three attempts and the
  plain integer.\<close>

lemmas number_unfold =
  number_spec_def number_end_def numberTypes_def formats_spec.simps formats_end.simps
  NumberType.simps

text \<open>Digits of the base and the marker of the base.\<close>

lemma match_spec_marked:
  assumes "isPositiveDigitInBase c b" and "list_all (digit_in b) ds" and "b \<le> 33"
    and "marker = CHR ''x'' # m"
  shows "match_spec marker b (c # ds @ marker @ r) = Some (c # ds @ marker, r)"
    and "\<not> reaches_end marker b (c # ds @ marker @ r)"
proof -
  from assms(4) have "marker \<noteq> DOTSTRING"
    by (simp add: DOTSTRING_def)
  note present = marker_present [OF this]
  from assms(3) have x: "\<not> isDigitInBase (CHR ''x'') b"
    by simp
  from match_spec_digits [OF assms(1,2) x, of marker "m @ r"]
    present(1) [where after = "fraction_spec b" and r = r]
    present(2) [where after_end = "fraction_end b" and r = r]
  show "match_spec marker b (c # ds @ marker @ r) = Some (c # ds @ marker, r)"
    and "\<not> reaches_end marker b (c # ds @ marker @ r)"
    by (simp_all add: assms(4))
qed

text \<open>Characters that cannot start the marker, one of which stops the run of
  digits: the attempt fails without reaching the end.\<close>

lemma match_spec_foreign:
  assumes "c \<noteq> CHR ''0''" and "list_all Q ds" and "\<And>z. Q z \<Longrightarrow> z \<noteq> hd marker"
    and "\<not> isDigitInBase y b" and "y \<noteq> hd marker" and "marker \<noteq> []"
  shows "match_spec marker b (c # ds @ y # r) = None"
    and "\<not> reaches_end marker b (c # ds @ y # r)"
proof -
  have "match_spec marker b (c # ds @ y # r) = None
      \<and> \<not> reaches_end marker b (c # ds @ y # r)"
  proof (cases "isPositiveDigitInBase c b")
    case False
    with assms(1) show ?thesis
      by (simp add: match_spec_no_digit)
  next
    case True
    from assms(4) show ?thesis
    proof (cases rule: run_stops [where P = "digit_in b" and ds = ds and r = r])
      case whole
      from match_spec_blocked [OF True whole(2) assms(6,5)] show ?thesis
        by simp
    next
      case (inner z r')
      with assms(2,3) have "z \<noteq> hd marker"
        by (simp add: list_all_iff)
      from match_spec_blocked [OF True inner(3) assms(6) this] show ?thesis
        by simp
    qed
  qed
  then show "match_spec marker b (c # ds @ y # r) = None"
    and "\<not> reaches_end marker b (c # ds @ y # r)"
    by simp_all
qed

text \<open>The run of digits stops in front of a text that neither starts with the
  marker nor is the beginning of it.\<close>

lemma match_spec_mismatch:
  assumes "isPositiveDigitInBase c b" and "dropWhile (digit_in b) t = rr" and "rr \<noteq> []"
    and "\<not> prefix marker rr" and "\<not> strict_prefix rr marker"
  shows "match_spec marker b (c # t) = None" and "\<not> reaches_end marker b (c # t)"
  using assms
  by (simp_all add: match_spec_def reaches_end_def marker_spec_def marker_end_def
      isPositiveDigitInBase_not_zero del: dropWhile_eq_Nil_conv)

lemma hex_not_x: "isDigitInBase z 16 \<Longrightarrow> z \<noteq> CHR ''x''"
  using not_digit_x [of 16] by auto

lemma hex_not_point: "isDigitInBase z 16 \<Longrightarrow> z \<noteq> CHR ''.''"
  using not_digit_point [of 16] by auto

lemma isdigit_not_x: "isdigit z \<Longrightarrow> z \<noteq> CHR ''x''"
  by auto

lemma number_spec_base08:
  assumes "isPositiveDigitInBase c 8" and "list_all (digit_in 8) ds"
  shows "number_spec (c # ds @ BASE08STRING @ r) = Some (c # ds @ BASE08STRING, BASE08NUM, r)"
    and "\<not> number_end (c # ds @ BASE08STRING @ r)"
proof -
  let ?s = "c # ds @ BASE08STRING @ r"
  have run: "dropWhile (digit_in 10) (ds @ BASE08STRING @ r) = CHR ''x'' # ''08'' @ r"
    using digits_8_10 [OF assms(2)] by (simp add: BASE08STRING_def)
  note real = match_spec_blocked [OF positive_8_10 [OF assms(1)] run, of DOTSTRING]
  have oct: "match_spec BASE08STRING 8 ?s = Some (c # ds @ BASE08STRING, r)"
    "\<not> reaches_end BASE08STRING 8 ?s"
    using match_spec_marked [OF assms, of BASE08STRING "''08''" r]
    by (simp_all add: BASE08STRING_def)
  from real oct show "number_spec ?s = Some (c # ds @ BASE08STRING, BASE08NUM, r)"
    and "\<not> number_end ?s"
    by (simp_all add: number_unfold DOTSTRING_def)
qed

lemma number_spec_base16:
  assumes "isPositiveDigitInBase c 16" and "list_all (digit_in 16) ds"
  shows "number_spec (c # ds @ BASE16STRING @ r) = Some (c # ds @ BASE16STRING, BASE16NUM, r)"
    and "\<not> number_end (c # ds @ BASE16STRING @ r)"
proof -
  let ?s = "c # ds @ BASE16STRING @ r"
  from assms(1) have c: "c \<noteq> CHR ''0''"
    by (rule isPositiveDigitInBase_not_zero)
  have s: "?s = c # ds @ CHR ''x'' # ''16'' @ r"
    by (simp add: BASE16STRING_def)
  have real: "match_spec DOTSTRING 10 ?s = None" "\<not> reaches_end DOTSTRING 10 ?s"
    unfolding s
    by (rule match_spec_foreign [OF c assms(2)]; simp add: DOTSTRING_def hex_not_point)+
  have oct: "match_spec BASE08STRING 8 ?s = None \<and> \<not> reaches_end BASE08STRING 8 ?s"
  proof (cases "isPositiveDigitInBase c 8")
    case False
    with c show ?thesis
      by (simp add: match_spec_no_digit)
  next
    case True
    have "\<not> isDigitInBase (CHR ''x'') 8"
      by simp
    then show ?thesis
    proof (cases rule: run_stops [where P = "digit_in 8" and ds = ds and r = "''16'' @ r"])
      case whole
      from match_spec_mismatch [OF True whole(2), of BASE08STRING] show ?thesis
        unfolding s by (simp add: BASE08STRING_def)
    next
      case (inner z r')
      with assms(2) have "z \<noteq> CHR ''x''"
        by (simp add: list_all_iff hex_not_x)
      with match_spec_blocked [OF True inner(3), of BASE08STRING] show ?thesis
        unfolding s by (simp add: BASE08STRING_def)
    qed
  qed
  have hex: "match_spec BASE16STRING 16 ?s = Some (c # ds @ BASE16STRING, r)"
    "\<not> reaches_end BASE16STRING 16 ?s"
    using match_spec_marked [OF assms, of BASE16STRING "''16''" r]
    by (simp_all add: BASE16STRING_def)
  from real oct hex show "number_spec ?s = Some (c # ds @ BASE16STRING, BASE16NUM, r)"
    and "\<not> number_end ?s"
    by (simp_all add: number_unfold)
qed

text \<open>Decimal digits, the point, at least one decimal digit, and a character
  that is not a decimal digit.\<close>

lemma number_spec_real:
  assumes "isdigit c" and "c \<noteq> CHR ''0''" and "list_all isdigit ds"
    and "isdigit f" and "list_all isdigit fs" and "\<not> isdigit y"
  shows "number_spec (c # ds @ CHR ''.'' # f # fs @ y # r) =
      Some (c # ds @ CHR ''.'' # f # fs, REALNUM, y # r)"
    and "\<not> number_end (c # ds @ CHR ''.'' # f # fs @ y # r)"
proof -
  from assms(1,2) have c: "isPositiveDigitInBase c 10"
    by (simp add: positive_decimal)
  from assms(3) have ds: "list_all (digit_in 10) ds"
    by (simp add: digits_decimal)
  have frac: "fraction_spec 10 (f # fs @ y # r) = Some (f # fs, y # r)"
    "\<not> fraction_end 10 (f # fs @ y # r)"
    using assms(4-6) by (simp_all add: fraction_spec_def fraction_end_def isDigitInBase_10)
  from match_spec_digits [OF c ds, of "CHR ''.''" DOTSTRING "f # fs @ y # r"] frac
  show "number_spec (c # ds @ CHR ''.'' # f # fs @ y # r) =
      Some (c # ds @ CHR ''.'' # f # fs, REALNUM, y # r)"
    and "\<not> number_end (c # ds @ CHR ''.'' # f # fs @ y # r)"
    by (simp_all add: number_unfold point_present)
qed

text \<open>The three formats fail on decimal digits followed by a character \<open>h\<close> that is
  no hexadecimal digit and not \<open>x\<close>, when no point with a fraction starts at \<open>h\<close>.\<close>

lemma formats_spec_stop:
  assumes "isdigit c" and "c \<noteq> CHR ''0''" and "list_all isdigit ds"
    and h16: "\<not> isDigitInBase h 16" and hx: "h \<noteq> CHR ''x''"
    and point: "marker_spec DOTSTRING (fraction_spec 10) (h # t) = None"
      "\<not> marker_end DOTSTRING (fraction_end 10) (h # t)"
  shows "formats_spec numberTypes (c # ds @ h # t) = None"
    and "\<not> formats_end numberTypes (c # ds @ h # t)"
proof -
  from assms(1,2) have c: "isPositiveDigitInBase c 10"
    by (simp add: positive_decimal)
  from assms(3) have ds: "list_all (digit_in 10) ds"
    by (simp add: digits_decimal)
  from h16 have h10: "\<not> isDigitInBase h 10" and h8: "\<not> isDigitInBase h 8"
    using digit_10_16 digit_8_10 by blast+
  have real: "match_spec DOTSTRING 10 (c # ds @ h # t) = None"
    "\<not> reaches_end DOTSTRING 10 (c # ds @ h # t)"
    by (simp_all add: match_spec_digits [OF c ds h10] point)
  have oct: "match_spec BASE08STRING 8 (c # ds @ h # t) = None"
    "\<not> reaches_end BASE08STRING 8 (c # ds @ h # t)"
    by (rule match_spec_foreign [OF assms(2,3) _ h8]; simp add: BASE08STRING_def hx isdigit_not_x)+
  have hex: "match_spec BASE16STRING 16 (c # ds @ h # t) = None"
    "\<not> reaches_end BASE16STRING 16 (c # ds @ h # t)"
    by (rule match_spec_foreign [OF assms(2,3) _ h16]; simp add: BASE16STRING_def hx isdigit_not_x)+
  from real oct hex show "formats_spec numberTypes (c # ds @ h # t) = None"
    and "\<not> formats_end numberTypes (c # ds @ h # t)"
    by (simp_all add: number_unfold)
qed

lemma num_spec_digits:
  assumes "isdigit c" and "c \<noteq> CHR ''0''" and "list_all isdigit ds" and "\<not> isdigit y"
  shows "num_spec (c # ds @ y # r) = Some (c # ds, y # r)" and "\<not> num_end (c # ds @ y # r)"
  using assms by (simp_all add: num_spec_def num_end_def)

lemma number_spec_plain:
  assumes "isdigit c" and "c \<noteq> CHR ''0''" and "list_all isdigit ds"
    and "\<not> isDigitInBase y 16" and "y \<noteq> CHR ''.''" and "y \<noteq> CHR ''x''"
  shows "number_spec (c # ds @ y # r) = Some (c # ds, NUM, y # r)"
    and "\<not> number_end (c # ds @ y # r)"
proof -
  from assms(4) have "\<not> isdigit y"
    using digit_10_16 [of y] by (auto simp: isDigitInBase_10)
  note num = num_spec_digits [OF assms(1-3) this, of r]
  from assms(5) have "marker_spec DOTSTRING (fraction_spec 10) (y # r) = None"
    and "\<not> marker_end DOTSTRING (fraction_end 10) (y # r)"
    by (simp_all add: marker_absent DOTSTRING_def)
  note formats = formats_spec_stop [OF assms(1-4,6) this]
  from num formats show "number_spec (c # ds @ y # r) = Some (c # ds, NUM, y # r)"
    and "\<not> number_end (c # ds @ y # r)"
    by (simp_all add: number_spec_def number_end_def)
qed

lemma number_spec_no_fraction:
  assumes "isdigit c" and "c \<noteq> CHR ''0''" and "list_all isdigit ds" and "\<not> isdigit y"
  shows "number_spec (c # ds @ CHR ''.'' # y # r) = Some (c # ds, NUM, CHR ''.'' # y # r)"
    and "\<not> number_end (c # ds @ CHR ''.'' # y # r)"
proof -
  note num = num_spec_digits [OF assms(1-3), of "CHR ''.''" "y # r"]
  from assms(4) have "marker_spec DOTSTRING (fraction_spec 10) (CHR ''.'' # y # r) = None"
    and "\<not> marker_end DOTSTRING (fraction_end 10) (CHR ''.'' # y # r)"
    by (simp_all add: point_present fraction_spec_def fraction_end_def isDigitInBase_10)
  note formats = formats_spec_stop [OF assms(1-3) _ _ this]
  from num formats
  show "number_spec (c # ds @ CHR ''.'' # y # r) = Some (c # ds, NUM, CHR ''.'' # y # r)"
    and "\<not> number_end (c # ds @ CHR ''.'' # y # r)"
    by (simp_all add: number_spec_def number_end_def)
qed

section \<open>The grammar on texts that start with \<open>0\<close>\<close>

text \<open>After \<open>0\<close> the alternate bases want their marker at once.\<close>

lemma alternate_zero:
  assumes "y \<noteq> CHR ''x''"
  shows "match_spec BASE08STRING b (CHR ''0'' # y # r) = None"
    and "\<not> reaches_end BASE08STRING b (CHR ''0'' # y # r)"
    and "match_spec BASE16STRING b (CHR ''0'' # y # r) = None"
    and "\<not> reaches_end BASE16STRING b (CHR ''0'' # y # r)"
  using assms
  by (simp_all add: match_spec_zero marker_absent BASE08STRING_def BASE16STRING_def)

lemma number_spec_zero:
  assumes "y \<noteq> CHR ''.''" and "y \<noteq> CHR ''x''"
  shows "number_spec (CHR ''0'' # y # r) = Some (''0'', NUM, y # r)"
    and "\<not> number_end (CHR ''0'' # y # r)"
  using assms alternate_zero [OF assms(2), of 8 r] alternate_zero [OF assms(2), of 16 r]
  by (simp_all add: number_unfold match_spec_zero marker_absent DOTSTRING_def num_spec_def
      num_end_def)

text \<open>After \<open>0.\<close> and zeros \<open>zs\<close>.\<close>

lemma zeros_spec_other:
  assumes "list_all is_zero zs" and "\<not> isdigit y" and "zs = [] \<or> y \<noteq> newline"
  shows "zeros_spec 10 (zs @ y # r) = Some (zs, r)" and "\<not> zeros_end 10 (zs @ y # r)"
proof -
  from assms(2) have "y \<noteq> CHR ''0''" and "\<not> isPositiveDigitInBase y 10"
    by (auto simp: positive_decimal)
  with assms(1,3) show "zeros_spec 10 (zs @ y # r) = Some (zs, r)"
    and "\<not> zeros_end 10 (zs @ y # r)"
    by (auto simp: zeros_spec_def zeros_end_def)
qed

lemma zeros_spec_digits:
  assumes "list_all is_zero zs" and "isdigit f" and "f \<noteq> CHR ''0''" and "list_all isdigit fs"
    and "\<not> isdigit y"
  shows "zeros_spec 10 (zs @ f # fs @ y # r) = Some (zs @ f # fs, y # r)"
    and "\<not> zeros_end 10 (zs @ f # fs @ y # r)"
proof -
  from assms(2,3) have "isPositiveDigitInBase f 10"
    by (simp add: positive_decimal)
  moreover from assms(2) have "f \<noteq> newline"
    by auto
  ultimately show "zeros_spec 10 (zs @ f # fs @ y # r) = Some (zs @ f # fs, y # r)"
    and "\<not> zeros_end 10 (zs @ f # fs @ y # r)"
    using assms by (simp_all add: zeros_spec_def zeros_end_def isDigitInBase_10)
qed

lemma zeros_spec_newline:
  assumes "list_all is_zero zs" and "zs \<noteq> []"
  shows "zeros_spec 10 (zs @ newline # r) = None" and "\<not> zeros_end 10 (zs @ newline # r)"
  using assms by (simp_all add: zeros_spec_def zeros_end_def)

lemma number_spec_zero_point:
  assumes "zeros_spec 10 t = Some (l, r)" and "\<not> zeros_end 10 t"
  shows "number_spec (CHR ''0'' # CHR ''.'' # t) = Some (CHR ''0'' # CHR ''.'' # l, REALNUM, r)"
    and "\<not> number_end (CHR ''0'' # CHR ''.'' # t)"
  using assms by (simp_all add: number_unfold match_spec_zero point_present)

lemma number_spec_zero_rejected:
  assumes "zeros_spec 10 t = None" and "\<not> zeros_end 10 t"
  shows "number_spec (CHR ''0'' # CHR ''.'' # t) = Some (''0'', NUM, CHR ''.'' # t)"
    and "\<not> number_end (CHR ''0'' # CHR ''.'' # t)"
  using assms alternate_zero [of "CHR ''.''" 8 t] alternate_zero [of "CHR ''.''" 16 t]
  by (simp_all add: number_unfold match_spec_zero point_present num_spec_def num_end_def)

section \<open>From the grammar to the scanner\<close>

lemma ScanNumber_shape:
  assumes "number_spec s = Some (l, ty, r)" and "\<not> number_end s"
    and "input L = \<lparr>pending = s, eof = False\<rparr>"
  shows "ScanNumber u L = emits L l ty r"
  by (simp add: ScanNumber_spec [OF assms(2,3)] assms(1) number_result_def)

section \<open>Number tokens\<close>

text \<open>
  C24: A literal of base 8 - a digit from 1 to 7, digits from 0 to 7, and the
  marker \<^verbatim>\<open>x08\<close> - is scanned by \<^verbatim>\<open>ScanNumber\<close> as one token of kind \<open>BASE08NUM\<close> whose
  lexeme is the digits and the marker; the cursor is left in front of whatever
  follows the marker, whatever that is.
\<close>

theorem ScanNumber_base08:
  assumes "isPositiveDigitInBase c 8" and "list_all (digit_in 8) ds"
    and "input L = \<lparr>pending = c # ds @ BASE08STRING @ r, eof = False\<rparr>"
  shows "ScanNumber u L = emits L (c # ds @ BASE08STRING) BASE08NUM r"
  using number_spec_base08 [OF assms(1,2)] assms(3) by (rule ScanNumber_shape)

theorem ScanNumber_base08_witness:
  "\<forall>u. ScanNumber u (new_LexicalAnalyzer ''17x08;'') =
     emits (new_LexicalAnalyzer ''17x08;'') ''17x08'' BASE08NUM '';''"
  using ScanNumber_base08 [of "CHR ''1''" "''7''" "new_LexicalAnalyzer ''17x08;''" "'';''"]
  by (simp add: digit_eval)

text \<open>
  C25: A literal of base 16 - a hexadecimal digit other than 0, hexadecimal
  digits in either case, and the marker \<^verbatim>\<open>x16\<close> - is scanned by \<^verbatim>\<open>ScanNumber\<close> as one
  token of kind \<open>BASE16NUM\<close>, although the attempts at a real number and at base 8
  come first and read part of it.
\<close>

theorem ScanNumber_base16:
  assumes "isPositiveDigitInBase c 16" and "list_all (digit_in 16) ds"
    and "input L = \<lparr>pending = c # ds @ BASE16STRING @ r, eof = False\<rparr>"
  shows "ScanNumber u L = emits L (c # ds @ BASE16STRING) BASE16NUM r"
  using number_spec_base16 [OF assms(1,2)] assms(3) by (rule ScanNumber_shape)

theorem ScanNumber_base16_witness:
  "\<forall>u. ScanNumber u (new_LexicalAnalyzer ''1Fx16 '') =
     emits (new_LexicalAnalyzer ''1Fx16 '') ''1Fx16'' BASE16NUM '' ''"
  using ScanNumber_base16 [of "CHR ''1''" "''F''" "new_LexicalAnalyzer ''1Fx16 ''" "'' ''"]
  by (simp add: digit_eval toupper_def islower_def)

text \<open>
  C26: Decimal digits that do not start with 0, a point, at least one decimal
  digit, and then a character that is not a decimal digit: \<^verbatim>\<open>ScanNumber\<close> delivers
  one token of kind \<open>REALNUM\<close> with the digits on both sides of the point, and
  leaves the cursor in front of that character.
\<close>

theorem ScanNumber_real:
  assumes "isdigit c" and "c \<noteq> CHR ''0''" and "list_all isdigit ds"
    and "isdigit f" and "list_all isdigit fs" and "\<not> isdigit y"
    and "input L = \<lparr>pending = c # ds @ CHR ''.'' # f # fs @ y # r, eof = False\<rparr>"
  shows "ScanNumber u L = emits L (c # ds @ CHR ''.'' # f # fs) REALNUM (y # r)"
  using number_spec_real [OF assms(1-6)] assms(7) by (rule ScanNumber_shape)

theorem ScanNumber_real_witness:
  "\<forall>u. ScanNumber u (new_LexicalAnalyzer ''12.50+'') =
     emits (new_LexicalAnalyzer ''12.50+'') ''12.50'' REALNUM ''+''"
  using ScanNumber_real [of "CHR ''1''" "''2''" "CHR ''5''" "''0''" "CHR ''+''"
      "new_LexicalAnalyzer ''12.50+''" "[]"]
  by (simp add: digit_eval)

text \<open>
  C27: Decimal digits that do not start with 0, a point, and then a character that
  is not a decimal digit: the attempt at a real number is given up, and
  \<^verbatim>\<open>ScanNumber\<close> delivers the digits as a token of kind \<open>NUM\<close> and leaves the cursor
  in front of the point, so that the next token is \<open>DOT\<close>.
\<close>

theorem ScanNumber_no_fraction:
  assumes "isdigit c" and "c \<noteq> CHR ''0''" and "list_all isdigit ds" and "\<not> isdigit y"
    and "input L = \<lparr>pending = c # ds @ CHR ''.'' # y # r, eof = False\<rparr>"
  shows "ScanNumber u L = emits L (c # ds) NUM (CHR ''.'' # y # r)"
  using number_spec_no_fraction [OF assms(1-4)] assms(5) by (rule ScanNumber_shape)

theorem ScanNumber_no_fraction_witness:
  "\<forall>u. ScanNumber u (new_LexicalAnalyzer ''5. '') =
     emits (new_LexicalAnalyzer ''5. '') ''5'' NUM ''. ''"
  using ScanNumber_no_fraction [of "CHR ''5''" "[]" "CHR '' ''" "new_LexicalAnalyzer ''5. ''" "[]"]
  by (simp add: digit_eval)

text \<open>
  C28: Decimal digits that do not start with 0, followed by a character that is
  neither a hexadecimal digit, nor a point, nor \<^verbatim>\<open>x\<close>: all three formats are tried
  and undone, and \<^verbatim>\<open>ScanNumber\<close> delivers the digits as a token of kind \<open>NUM\<close> with
  the cursor in front of that character.
\<close>

theorem ScanNumber_plain:
  assumes "isdigit c" and "c \<noteq> CHR ''0''" and "list_all isdigit ds"
    and "\<not> isDigitInBase y 16" and "y \<noteq> CHR ''.''" and "y \<noteq> CHR ''x''"
    and "input L = \<lparr>pending = c # ds @ y # r, eof = False\<rparr>"
  shows "ScanNumber u L = emits L (c # ds) NUM (y # r)"
  using number_spec_plain [OF assms(1-6)] assms(7) by (rule ScanNumber_shape)

theorem ScanNumber_plain_witness:
  "\<forall>u. ScanNumber u (new_LexicalAnalyzer ''179;'') =
     emits (new_LexicalAnalyzer ''179;'') ''179'' NUM '';''"
  using ScanNumber_plain [of "CHR ''1''" "''79''" "CHR '';''" "new_LexicalAnalyzer ''179;''" "[]"]
  by (simp add: digit_eval toupper_def islower_def)

text \<open>
  C29: A \<open>0\<close> followed by a character other than the point and \<^verbatim>\<open>x\<close> is the token
  \<open>NUM\<close> with lexeme \<open>0\<close>, also when that character is a digit: a plain integer
  never has a second digit after a leading zero.
\<close>

theorem ScanNumber_zero:
  assumes "y \<noteq> CHR ''.''" and "y \<noteq> CHR ''x''"
    and "input L = \<lparr>pending = CHR ''0'' # y # r, eof = False\<rparr>"
  shows "ScanNumber u L = emits L ''0'' NUM (y # r)"
  using number_spec_zero [OF assms(1,2)] assms(3) by (rule ScanNumber_shape)

theorem ScanNumber_zero_witness:
  "\<forall>u. ScanNumber u (new_LexicalAnalyzer ''007'') =
     emits (new_LexicalAnalyzer ''007'') ''0'' NUM ''07''"
  using ScanNumber_zero [of "CHR ''0''" "new_LexicalAnalyzer ''007''" "''7''"]
  by (simp add: digit_eval)

text \<open>
  C30: After \<open>0.\<close> and any number of zeros, a character \<open>y\<close> that is not a decimal
  digit ends a token of kind \<open>REALNUM\<close> - and is itself taken out of the input:
  the cursor is left behind \<open>y\<close>, and \<open>y\<close> is not part of the lexeme. (The case of a
  newline after at least one zero is excluded; there the attempt is given up.)
\<close>

theorem ScanNumber_zero_point:
  assumes "list_all is_zero zs" and "\<not> isdigit y" and "zs = [] \<or> y \<noteq> newline"
    and "input L = \<lparr>pending = CHR ''0'' # CHR ''.'' # zs @ y # r, eof = False\<rparr>"
  shows "ScanNumber u L = emits L (CHR ''0'' # CHR ''.'' # zs) REALNUM r"
  using number_spec_zero_point [OF zeros_spec_other [OF assms(1-3)]] assms(4)
  by (rule ScanNumber_shape)

theorem ScanNumber_zero_point_witness:
  "\<forall>u. ScanNumber u (new_LexicalAnalyzer ''0.00+1'') =
     emits (new_LexicalAnalyzer ''0.00+1'') ''0.00'' REALNUM ''1''"
  using ScanNumber_zero_point [of "''00''" "CHR ''+''" "new_LexicalAnalyzer ''0.00+1''" "''1''"]
  by (simp add: digit_eval)

text \<open>
  C31: After \<open>0.\<close> and any number of zeros, a digit from 1 to 9 continues the
  literal with all decimal digits that follow; the token is of kind \<open>REALNUM\<close>
  and the character after the digits stays in the input.
\<close>

theorem ScanNumber_zero_fraction:
  assumes "list_all is_zero zs" and "isdigit f" and "f \<noteq> CHR ''0''" and "list_all isdigit fs"
    and "\<not> isdigit y"
    and "input L = \<lparr>pending = CHR ''0'' # CHR ''.'' # zs @ f # fs @ y # r, eof = False\<rparr>"
  shows "ScanNumber u L = emits L (CHR ''0'' # CHR ''.'' # zs @ f # fs) REALNUM (y # r)"
  using number_spec_zero_point [OF zeros_spec_digits [OF assms(1-5)]] assms(6)
  by (rule ScanNumber_shape)

theorem ScanNumber_zero_fraction_witness:
  "\<forall>u. ScanNumber u (new_LexicalAnalyzer ''0.0050;'') =
     emits (new_LexicalAnalyzer ''0.0050;'') ''0.0050'' REALNUM '';''"
  using ScanNumber_zero_fraction [of "''00''" "CHR ''5''" "''0''" "CHR '';''"
      "new_LexicalAnalyzer ''0.0050;''" "[]"]
  by (simp add: digit_eval)

text \<open>
  C32: A newline right after \<open>0.\<close> and at least one zero makes the attempt at a real
  number fail: \<^verbatim>\<open>ScanNumber\<close> delivers \<open>NUM\<close> with lexeme \<open>0\<close> and the cursor is back in
  front of the point.
\<close>

theorem ScanNumber_zero_newline:
  assumes "list_all is_zero zs" and "zs \<noteq> []"
    and "input L = \<lparr>pending = CHR ''0'' # CHR ''.'' # zs @ newline # r, eof = False\<rparr>"
  shows "ScanNumber u L = emits L ''0'' NUM (CHR ''.'' # zs @ newline # r)"
  using number_spec_zero_rejected [OF zeros_spec_newline [OF assms(1,2)]] assms(3)
  by (rule ScanNumber_shape)

theorem ScanNumber_zero_newline_witness:
  "\<forall>u. ScanNumber u (new_LexicalAnalyzer (''0.0'' @ [newline])) =
     emits (new_LexicalAnalyzer (''0.0'' @ [newline])) ''0'' NUM (''.0'' @ [newline])"
  using ScanNumber_zero_newline [of "''0''" "new_LexicalAnalyzer (''0.0'' @ [newline])" "[]"]
  by (simp add: digit_eval)

end
