(* ===== verification/Number_End.thy ===== *)
theory Number_End
  imports Number_Cases Scanner_Spec
begin

text \<open>
  Decimal digits at the very end of the input, which the grammar \<open>number_spec\<close>
  does not cover. The attempt at a real number runs its loop past the end and
  pushes all digits back; from then on the cursor has seen the end, and the
  loop \<^verbatim>\<open>while (!input.EndOfInput() && ...)\<close> of each later attempt stops as soon as
  the last pending character has been fetched, without collecting it and
  without pushing it back. Every attempt that gets that far loses one digit:
  the attempt at base 16 and the plain integer always, the attempt at base 8
  when the digits before the last one are octal. The token is \<open>NUM\<close> with the
  digits that are left.
\<close>

section \<open>One attempt on digits up to the end\<close>

lemma marker_Nil_seen:
  "marker \<noteq> [] \<Longrightarrow>
   verifyPatternMatch u marker \<lparr>pending = [], eof = True\<rparr> = (False, \<lparr>pending = [], eof = True\<rparr>)"
  using verifyPatternMatch_short_seen [of u "[]" "hd marker" "tl marker"] by simp

lemma matchToBase_fresh_end:
  assumes "isPositiveDigitInBase d b" and "list_all (digit_in b) ds" and "marker \<noteq> []"
  shows "matchToBase u marker b \<lparr>pending = d # ds, eof = False\<rparr> =
     ([], \<lparr>pending = d # ds, eof = True\<rparr>)"
  using assms isPositiveDigitInBase_not_zero [OF assms(1)]
  by (simp add: matchToBase_def matchToBase_nonzero_def GetChar_scan_run_fresh marker_Nil_seen
      UngetString_def EMPTYSTRING_def split_beta Let_def)

lemma matchToBase_seen_end:
  assumes "isPositiveDigitInBase d b" and "list_all (digit_in b) (butlast ds)" and "marker \<noteq> []"
  shows "matchToBase u marker b \<lparr>pending = d # ds, eof = True\<rparr> =
     ([], \<lparr>pending = d # butlast ds, eof = True\<rparr>)"
proof (cases ds rule: rev_cases)
  case Nil
  with assms isPositiveDigitInBase_not_zero [OF assms(1)] show ?thesis
    by (simp add: matchToBase_def matchToBase_nonzero_def scan_run_end marker_Nil_seen
      UngetString_def EMPTYSTRING_def split_beta Let_def)
next
  case (snoc ys z)
  show ?thesis
  proof (cases ys)
    case Nil
    with snoc assms isPositiveDigitInBase_not_zero [OF assms(1)] show ?thesis
      by (simp add: matchToBase_def matchToBase_nonzero_def scan_run_end marker_Nil_seen
        UngetString_def EMPTYSTRING_def split_beta Let_def)
  next
    case (Cons x xs)
    with snoc assms isPositiveDigitInBase_not_zero [OF assms(1)] show ?thesis
      by (simp add: matchToBase_def matchToBase_nonzero_def scan_run_seen marker_Nil_seen
        UngetString_def EMPTYSTRING_def split_beta Let_def)
  qed
qed


lemma matchToBase_seen_other:
  assumes "d \<noteq> CHR ''0''" and "\<not> isPositiveDigitInBase d b"
  shows "matchToBase u marker b \<lparr>pending = d # ds, eof = e\<rparr> = ([], \<lparr>pending = d # ds, eof = e\<rparr>)"
  using assms by (simp add: matchToBase_def UngetString_def EMPTYSTRING_def)

lemma matchToBase_seen_stop:
  assumes "isPositiveDigitInBase d b" and "\<not> list_all (digit_in b) (butlast ds)"
    and "marker \<noteq> []" and "hd (dropWhile (digit_in b) ds) \<noteq> hd marker"
  shows "matchToBase u marker b \<lparr>pending = d # ds, eof = True\<rparr> =
     ([], \<lparr>pending = d # ds, eof = True\<rparr>)"
proof -
  from assms(2) obtain ys z where ds: "ds = ys @ [z]" and ys: "\<not> list_all (digit_in b) ys"
    by (cases ds rule: rev_cases) auto
  from ys obtain x xs where yx: "ys = x # xs"
    by (cases ys) auto
  from ys have drop: "dropWhile (digit_in b) ys \<noteq> []"
    by (simp add: list_all_iff)
  then obtain y rest where y: "dropWhile (digit_in b) ys = y # rest"
    by (cases "dropWhile (digit_in b) ys") auto
  from assms(3) obtain m ms where marker: "marker = m # ms"
    by (cases marker) auto
  from ys have "dropWhile (digit_in b) ds = dropWhile (digit_in b) ys @ [z]"
    unfolding ds by (simp add: dropWhile_append list_all_iff)
  with y assms(4) marker have "m \<noteq> y"
    by auto
  then have "verifyPatternMatch u marker \<lparr>pending = y # rest @ [z], eof = True\<rparr> =
      (False, \<lparr>pending = y # rest @ [z], eof = True\<rparr>)"
    using verifyPatternMatch_mismatch [of m y u "[]" ms "rest @ [z]" True] marker by simp
  moreover have "takeWhile (digit_in b) ys @ y # rest = ys"
    using takeWhile_dropWhile_id [of "digit_in b" ys] y by simp
  ultimately show ?thesis
    using assms(1) isPositiveDigitInBase_not_zero [OF assms(1)] y ds yx
    by (simp add: matchToBase_def matchToBase_nonzero_def scan_run_seen
      UngetString_def EMPTYSTRING_def split_beta Let_def del: dropWhile_eq_Nil_conv)
qed

lemma checkAndReturnNum_seen_end:
  assumes "isdigit d" and "d \<noteq> CHR ''0''" and "list_all isdigit (butlast ds)"
  shows "checkAndReturnNum u \<lparr>pending = d # ds, eof = True\<rparr> =
     (d # butlast ds, \<lparr>pending = [], eof = True\<rparr>)"
proof (cases ds rule: rev_cases)
  case Nil
  with assms show ?thesis
    by (simp add: checkAndReturnNum_def scan_run_end EMPTYSTRING_def split_beta Let_def)
next
  case (snoc ys z)
  show ?thesis
  proof (cases ys)
    case Nil
    with snoc assms show ?thesis
      by (simp add: checkAndReturnNum_def scan_run_end EMPTYSTRING_def split_beta Let_def)
  next
    case (Cons x xs)
    with snoc assms show ?thesis
      by (simp add: checkAndReturnNum_def scan_run_seen EMPTYSTRING_def split_beta Let_def)
  qed
qed


section \<open>The digits that are left\<close>

text \<open>\<open>octal_run d ds\<close>: the attempt at base 8 reaches the end of the digits \<open>d # ds\<close>
  (it looks at all of them but the last). \<open>digits_kept d ds\<close>: what is left of \<open>ds\<close>
  after the attempts.\<close>

definition octal_run :: "char \<Rightarrow> cstring \<Rightarrow> bool" where
  "octal_run d ds \<longleftrightarrow> isPositiveDigitInBase d 8 \<and> list_all (digit_in 8) (butlast ds)"

definition digits_kept :: "char \<Rightarrow> cstring \<Rightarrow> cstring" where
  "digits_kept d ds = take (length ds - (if octal_run d ds then 3 else 2)) ds"

lemma butlast_take: "butlast (butlast ds) = take (length ds - 2) ds"
  "butlast (butlast (butlast ds)) = take (length ds - 3) ds"
  by (simp_all add: butlast_conv_take numeral_2_eq_2 numeral_3_eq_3 min_def)

lemma octal_attempt_seen:
  assumes "isdigit d" and "d \<noteq> CHR ''0''" and "list_all isdigit ds"
  shows "matchToBase u ''x08'' 8 \<lparr>pending = d # ds, eof = True\<rparr> =
     ([], \<lparr>pending = d # (if octal_run d ds then butlast ds else ds), eof = True\<rparr>)"
proof (cases "isPositiveDigitInBase d 8")
  case False
  with assms(2) show ?thesis
    by (simp add: matchToBase_seen_other octal_run_def)
next
  case pos: True
  show ?thesis
  proof (cases "list_all (digit_in 8) (butlast ds)")
    case True
    with pos show ?thesis
      by (simp add: matchToBase_seen_end octal_run_def)
  next
    case False
    then have "\<not> list_all (digit_in 8) ds"
      using list_all_butlast by blast
    then have "dropWhile (digit_in 8) ds \<noteq> []"
      by (simp add: list_all_iff)
    then have "hd (dropWhile (digit_in 8) ds) \<in> set ds"
      using set_dropWhileD [of "hd (dropWhile (digit_in 8) ds)" "digit_in 8" ds] by simp
    with assms(3) have "hd (dropWhile (digit_in 8) ds) \<noteq> hd ''x08''"
      by (auto simp: list_all_iff dest: isdigit_not_x)
    with pos False show ?thesis
      by (simp add: matchToBase_seen_stop octal_run_def)
  qed
qed

section \<open>The number token at the end of the input\<close>

lemma ScanNumber_at_end:
  assumes "isdigit d" and "d \<noteq> CHR ''0''" and "list_all isdigit ds"
    and "input L = \<lparr>pending = d # ds, eof = False\<rparr>"
  shows "ScanNumber u L = emits_last L (d # digits_kept d ds) NUM"
proof -
  let ?ds = "if octal_run d ds then butlast ds else ds"
  have pos: "isPositiveDigitInBase d 10" "isPositiveDigitInBase d 16"
    using assms(1,2) by (simp_all add: positive_decimal positive_10_16)
  have dec: "list_all (digit_in 10) ds"
    using assms(3) by (simp add: digits_decimal)
  have ds: "list_all isdigit ?ds"
    using assms(3) by (simp add: list_all_butlast)
  then have hex: "list_all (digit_in 16) (butlast ?ds)"
    by (intro digits_10_16 list_all_butlast) (simp add: digits_decimal)
  have "list_all isdigit (butlast (butlast ?ds))"
    using ds by (intro list_all_butlast)
  note num = checkAndReturnNum_seen_end [OF assms(1,2) this, of u]
  have kept: "butlast (butlast ?ds) = digits_kept d ds"
    by (cases "octal_run d ds")
       (simp_all only: digits_kept_def butlast_take(2) if_True, simp_all only: butlast_take(1) if_False)
  show ?thesis
    using assms(4)
    by (cases L)
       (simp add: ScanNumber_def numberTypes_def string_consts Let_def emits_last_def
         matchToBase_fresh_end [OF pos(1) dec] octal_attempt_seen [OF assms(1-3)]
         matchToBase_seen_end [OF pos(2) hex] num kept)
qed


lemma GetToken_number_at_end:
  assumes "tokens L = []" and "list_all isspace ws"
    and "input L = \<lparr>pending = ws @ d # ds, eof = False\<rparr>"
    and "isdigit d" and "d \<noteq> CHR ''0''" and "list_all isdigit ds"
  shows "GetToken u L =
     emits_last (L\<lparr>line_no := line_no L + newlines ws\<rparr>) (d # digits_kept d ds) NUM"
proof -
  let ?ln = "line_no L + newlines ws"
  let ?L = "L\<lparr>line_no := ?ln,
      tmp := (tmp L)\<lparr>lexeme := EMPTYSTRING, Token.line_no := ?ln\<rparr>,
      input := \<lparr>pending = ds, eof = False\<rparr>\<rparr>"
  from assms(4) have angle: "d \<noteq> CHR ''<''" "d \<noteq> CHR ''>''"
    by (auto simp: isdigit_def char_le_code)
  from assms(4) have d: "\<not> isspace d" "single_kind d = None"
    using single_kind_not_class [of d] by (cases "single_kind d"; simp add: isdigit_not_isspace)+
  note skip = SkipSpace_fresh [OF assms(2) d(1) assms(3), of u]
  have "GetToken u L = GetToken_switch u d ?L"
    using assms(1) by (simp add: GetToken_def skip)
  also have "\<dots> = ScanNumber u (?L\<lparr>input := \<lparr>pending = d # ds, eof = False\<rparr>\<rparr>)"
    using assms(4) angle by (simp add: GetToken_switch_other [OF d(2)] UngetChar_def)
  also have "\<dots> = emits_last (?L\<lparr>input := \<lparr>pending = d # ds, eof = False\<rparr>\<rparr>)
      (d # digits_kept d ds) NUM"
    by (rule ScanNumber_at_end [OF assms(4-6)]) simp
  finally show ?thesis
    by (simp add: emits_last_def Let_def)
qed

end
