(* ===== verification/Spec2Isabelle.thy ===== *)
theory Spec2Isabelle
  imports Stream_Spec Number_End
begin

text \<open>
  \<^bold>\<open>A verification of the lexical analyser \<^verbatim>\<open>lexer.cc\<close>\<close>
  (\<^verbatim>\<open>src/Assignment 1/CSE340_Project1/lexer.cc\<close>).

  \<^bold>\<open>The program.\<close> \<^verbatim>\<open>main\<close> reads tokens from standard input with
  \<^verbatim>\<open>LexicalAnalyzer::GetToken\<close> and prints each one until it has printed an
  \<open>END_OF_FILE\<close> token. \<^verbatim>\<open>GetToken\<close> delivers a token that was returned with
  \<^verbatim>\<open>UngetToken\<close> if there is one; otherwise it skips white space and counts lines
  (\<^verbatim>\<open>SkipSpace\<close>), fetches a character and dispatches on it: operators and
  punctuation are decided in the \<^verbatim>\<open>switch\<close>, a digit goes to \<^verbatim>\<open>ScanNumber\<close>, a
  letter to \<^verbatim>\<open>ScanIdOrKeyword\<close>. \<^verbatim>\<open>ScanNumber\<close> tries the formats of the table
  \<^verbatim>\<open>numberTypes\<close> in order (real, base 8, base 16), each with \<^verbatim>\<open>matchToBase\<close>, which
  reads digits, checks the marker of the format with \<^verbatim>\<open>verifyPatternMatch\<close> and
  pushes everything back when the format does not fit; the plain integer
  (\<^verbatim>\<open>checkAndReturnNum\<close>) comes last. All of them read the input through the
  character cursor \<^verbatim>\<open>InputBuffer\<close>, which is declared in \<^verbatim>\<open>inputbuf.h\<close> and is not part
  of the sources.

  \<^bold>\<open>The model\<close> is a shallow embedding: every function of \<^verbatim>\<open>lexer.cc\<close> is a HOL
  function of the same name that takes the state it reads and returns the
  state it changes; every loop is a recursive function whose termination is
  proved, except the loop of \<^verbatim>\<open>main\<close>, which is a partial function into \<open>option\<close>.

  \<^item> \<open>Lexer_Prelude\<close>: the character classes of \<^verbatim>\<open><cctype>\<close> and lemmas on
    \<open>takeWhile\<close> and \<open>dropWhile\<close>.
  \<^item> \<open>Input_Buffer\<close>: the cursor, modelled from its interface as the pending
    input and a flag that a failed fetch sets. A fetch takes the old value of the
    variable it is to assign and returns that value when it fails, as
    \<^verbatim>\<open>std::istream::get\<close> leaves its argument untouched. \<open>fetches_left\<close> is the
    measure of all loops: a fetch on a cursor that is not at the end decreases it.
  \<^item> \<open>Token_Table\<close>: \<^verbatim>\<open>TokenType\<close>, \<^verbatim>\<open>reserved\<close>, \<^verbatim>\<open>keyword\<close>, \<^verbatim>\<open>numberTypes\<close>,
    \<^verbatim>\<open>IsKeyword\<close>, \<^verbatim>\<open>FindKeywordIndex\<close>, \<^verbatim>\<open>Token\<close> with \<^verbatim>\<open>Token::Print\<close>, the record
    \<open>LexicalAnalyzer\<close> of the members \<^verbatim>\<open>tokens\<close>, \<^verbatim>\<open>line_no\<close>, \<^verbatim>\<open>tmp\<close>, \<^verbatim>\<open>input\<close>, and
    the record \<open>Uninit\<close>. Each scanning function declares \<^verbatim>\<open>char c;\<close> without a
    value and reads it after a fetch that may have failed; \<open>Uninit\<close> holds these
    values, one for each function, and is the first argument of every function of
    the model, with the same value at every call. The enumeration \<^verbatim>\<open>TokenType\<close> and
    the classes \<^verbatim>\<open>Token\<close> and \<^verbatim>\<open>LexicalAnalyzer\<close> are declared in \<^verbatim>\<open>lexer.h\<close>, which is
    not part of the sources: the enumerators are taken in the order of the names
    in \<^verbatim>\<open>reserved\<close>, which \<^verbatim>\<open>Print\<close> indexes with the cast of the kind, and the members
    are those that \<^verbatim>\<open>lexer.cc\<close> uses. \<open>TokenType\<close> is an instance of \<open>linorder\<close> in the
    order of the enumerators.
  \<^item> \<open>Scan_Loop\<close>: the loop \<^verbatim>\<open>while (!EndOfInput() && P(c)) { scanned += c; GetChar(c); }\<close>
    with the push-back after it, which the source writes five times.
  \<^item> \<open>Pattern_Match\<close>: \<^verbatim>\<open>verifyPatternMatch\<close>.
  \<^item> \<open>Number_Matcher\<close>: \<^verbatim>\<open>isDigitInBase\<close>, \<^verbatim>\<open>isPositiveDigitInBase\<close>,
    \<^verbatim>\<open>matchToBase\<close> (its two branches and what they do after the point are
    functions of their own), \<^verbatim>\<open>checkAndReturnNum\<close>, \<^verbatim>\<open>ScanNumber\<close>.
  \<^item> \<open>Ident_Scanner\<close>: \<^verbatim>\<open>ScanIdOrKeyword\<close>. \<open>Space_Skipper\<close>: \<^verbatim>\<open>SkipSpace\<close>.
  \<^item> \<open>Number_End\<close>: what \<^verbatim>\<open>ScanNumber\<close> and \<^verbatim>\<open>GetToken\<close> return for decimal digits that
    run up to the very end of the input.
  \<^item> \<open>Scanner_Driver\<close>: \<^verbatim>\<open>UngetToken\<close>, \<^verbatim>\<open>GetToken\<close> and its \<^verbatim>\<open>switch\<close>.
    \<open>Lexer_Main\<close>: \<^verbatim>\<open>main\<close>; the model returns the text written to standard
    output.

  \<^bold>\<open>The specification\<close> is a grammar on strings, built up like the code:
  \<open>match_spec\<close> for one format (\<open>Number_Spec\<close>), \<open>number_spec\<close> for a number token
  (\<open>Number_Formats\<close>), \<open>token_spec\<close> for any token (\<open>Scanner_Spec\<close>), \<open>stream_spec\<close> for
  the tokens of a text (\<open>Stream_Spec\<close>). Each level comes with a predicate that
  says when scanning fetches past the end of the text (\<open>reaches_end\<close>,
  \<open>number_end\<close>, \<open>token_end\<close>).

  \<^bold>\<open>What is proved.\<close>
  \<^item> Refinement, level by level: \<^verbatim>\<open>matchToBase\<close>, \<^verbatim>\<open>ScanNumber\<close> and \<^verbatim>\<open>GetToken\<close>
    return what the grammar prescribes and leave the cursor in front of the rest
    whenever the scan does not fetch past the end; the end flag after a call
    says exactly whether it did; a failed attempt leaves the cursor unchanged.
  \<^item> The program: for harmless values of the unassigned variables, \<^verbatim>\<open>main\<close>
    returns on every text that ends with white space and prints the tokens of
    \<open>stream_spec\<close>, which end with the only \<open>END_OF_FILE\<close> token and have line numbers
    that never decrease.
  \<^item> The shapes of number tokens (\<open>Number_Cases\<close>): literals of base 8 and 16,
    real numbers, \<open>5.\<close>, plain integers, and the texts that start with \<open>0\<close>.
  \<^item> Invariants of a call: a token read from the input carries the value of
    the line counter, which is never lowered; a token returned with \<^verbatim>\<open>UngetToken\<close>
    comes back unchanged and leaves the state as it was. (That the end flag is
    never cleared is a lemma of every function, used to compose the refinement
    theorems; it is a property of the cursor and not stated as a theorem of the
    lexer.)
  \<^item> The components by themselves: the scanning loop equals the split of
    the input by \<open>takeWhile\<close> and \<open>dropWhile\<close>, on a cursor that has not seen the end
    and on one that has; \<^verbatim>\<open>verifyPatternMatch\<close> is a transaction on the cursor; the
    digit predicates accept exactly the digits of their base; the loops over
    the keyword table compute membership and position, and the names of the
    kinds agree with the keywords; \<^verbatim>\<open>ScanIdOrKeyword\<close> returns the longest word, with
    the kind the table gives for its exact spelling; \<^verbatim>\<open>SkipSpace\<close> counts the
    newlines it skips.
  \<^item> What happens at the end of the input, where the code reads variables
    that were never assigned, counts a final newline twice, loses the last
    digits of a decimal number (\<open>GetToken_truncates\<close>, for all decimal numbers not
    starting with \<open>0\<close>) and pushes back a character that was never read
    (\<open>verifyPatternMatch_fabricates\<close>).

  \<^bold>\<open>Bounds and fuel.\<close> There is none: the loops of the scanner are total functions
  with the measure \<open>fetches_left\<close>, and the loop of \<^verbatim>\<open>main\<close> is a partial function
  for which returning is proved (\<open>main_returns\<close>). Characters are bytes; the line
  counter is an unbounded integer.

  \<^bold>\<open>Not modelled, and assumed.\<close> The cursor and the C library are modelled
  from their interfaces, since their code is not in the repository; so are the
  declarations of \<^verbatim>\<open>lexer.h\<close> (see \<open>Token_Table\<close> above). The line counter is an
  unbounded integer: the \<^verbatim>\<open>int\<close> of the source overflows after \<open>2\<^sup>3\<^sup>1\<close> newlines,
  which is undefined behaviour in C++ and has no value to model, so the
  statements about line numbers are about inputs with fewer newlines. The
  value that an unassigned \<^verbatim>\<open>char c\<close> holds is the same at every call of its
  function; the theorems that do not mention \<open>benign\<close> hold for all values and so
  do not depend on this. The test \<^verbatim>\<open>c != EOF\<close> inside \<^verbatim>\<open>UngetChar\<close> of the cursor and
  output as an effect (the model returns the text) are left out. At the very
  end of the input the theorems cover white space, operators, words and
  decimal numbers not starting with \<open>0\<close>; numbers of other shapes that run up to
  the end (a marker cut short, hexadecimal letters) are not characterised, and
  \<open>stream_spec\<close> is undefined for a text that ends inside a number. The parser
  that the scanner is written for is not in the repository.
\<close>

section \<open>The program\<close>

text \<open>
  C1: The program prints the tokens of its input. For harmless values of the
  unassigned variables and a text on which \<open>stream_spec\<close> is defined, \<^verbatim>\<open>main\<close>
  returns, and what it has written to standard output is the printed form of
  the tokens of \<open>stream_spec\<close>, one line for each, in order.
\<close>

theorem main_prints_tokens:
  assumes "benign u" and "stream_spec 1 s = Some toks"
  shows "main u s = Some (printed toks)"
  using assms by (rule main_stream)

theorem main_prints_tokens_witness:
  "main null_init (''x<=17x08'' @ [newline]) =
     Some (''{x , ID , 1}'' @ [newline] @ ''{ , LTEQ , 1}'' @ [newline]
       @ ''{17x08 , BASE08NUM , 1}'' @ [newline] @ ''{ , END_OF_FILE , 3}'' @ [newline])"
proof -
  let ?toks = "[\<lparr>lexeme = ''x'', token_type = ID, Token.line_no = 1\<rparr>,
    \<lparr>lexeme = [], token_type = LTEQ, Token.line_no = 1\<rparr>,
    \<lparr>lexeme = ''17x08'', token_type = BASE08NUM, Token.line_no = 1\<rparr>,
    \<lparr>lexeme = [], token_type = END_OF_FILE, Token.line_no = 3\<rparr>]"
  have "stream_spec 1 (''x<=17x08'' @ [newline]) = Some ?toks"
    by code_simp
  from main_prints_tokens [OF benign_null_init this]
  have "main null_init (''x<=17x08'' @ [newline]) = Some (printed ?toks)" .
  moreover have "printed ?toks =
      ''{x , ID , 1}'' @ [newline] @ ''{ , LTEQ , 1}'' @ [newline]
       @ ''{17x08 , BASE08NUM , 1}'' @ [newline] @ ''{ , END_OF_FILE , 3}'' @ [newline]"
    by code_simp
  ultimately show ?thesis
    by simp
qed

text \<open>
  C2: The program returns. For harmless values of the unassigned variables and
  every text that is empty or ends with a white-space character (a text file
  whose last line ends with a newline), the loop of \<^verbatim>\<open>main\<close> ends. The text has a
  token stream \<open>stream_spec\<close>, the output is the printed form of exactly these
  tokens, and they are well formed: the last one is \<open>END_OF_FILE\<close>, no other one
  is, and their line numbers start at 1 or later and never decrease.
\<close>

theorem main_returns:
  assumes "benign u" and "s = [] \<or> isspace (last s)"
  shows "\<exists>toks. stream_spec 1 s = Some toks \<and> main u s = Some (printed toks)
    \<and> well_formed 1 toks"
proof -
  from stream_spec_total [OF assms(2), of 1] obtain toks where "stream_spec 1 s = Some toks"
    by auto
  with main_stream [OF assms(1) this] stream_spec_well_formed [OF this] show ?thesis
    by blast
qed

theorem main_returns_witness:
  "\<exists>toks. stream_spec 1 ''0.0+1 '' = Some toks
     \<and> main null_init ''0.0+1 '' = Some (printed toks) \<and> well_formed 1 toks"
proof -
  have "isspace (last ''0.0+1 '')"
    by simp
  then show ?thesis
    by (intro main_returns benign_null_init disjI2)
qed

section \<open>The next token\<close>

text \<open>
  C3: \<^verbatim>\<open>GetToken\<close> implements the grammar of tokens. With nothing on the stack of
  returned tokens and a cursor that has not seen the end, on white space \<open>ws\<close>
  followed by a text \<open>s\<close> that starts with another character, \<^verbatim>\<open>GetToken\<close> returns the
  token of \<open>token_spec s\<close> - lexeme and kind - with the line of the state plus the
  number of newlines in \<open>ws\<close>; the line counter has that value, \<^verbatim>\<open>tmp\<close> holds the
  token, and the cursor is in front of the rest. This holds whenever scanning
  the token does not fetch past the end of \<open>s\<close>.
\<close>

theorem GetToken_refines:
  assumes "tokens L = []" and "list_all isspace ws"
    and "input L = \<lparr>pending = ws @ s, eof = False\<rparr>"
    and "s \<noteq> []" and "\<not> isspace (hd s)" and "\<not> token_end s"
  shows "GetToken u L = token_result (L\<lparr>line_no := line_no L + newlines ws\<rparr>) (token_spec s)"
  using assms by (rule GetToken_spec)

theorem GetToken_refines_witness:
  "\<forall>u. GetToken u (new_LexicalAnalyzer ([newline] @ '' WHILE(x)''))
     = emits ((new_LexicalAnalyzer ([newline] @ '' WHILE(x)''))\<lparr>line_no := 2\<rparr>)
         ''WHILE'' WHILE ''(x)''"
proof
  fix u
  let ?L = "new_LexicalAnalyzer ([newline] @ '' WHILE(x)'')"
  have "token_spec ''WHILE(x)'' = (''WHILE'', WHILE, ''(x)'')" and "\<not> token_end ''WHILE(x)''"
    by code_simp+
  moreover have "\<not> isspace (CHR ''W'')"
    by (simp add: isspace_def char_le_code)
  ultimately show "GetToken u ?L = emits (?L\<lparr>line_no := 2\<rparr>) ''WHILE'' WHILE ''(x)''"
    using GetToken_refines [of ?L "[newline, CHR '' '']" "''WHILE(x)''" u]
    by (simp add: new_LexicalAnalyzer_def cursor_of_def emits_def Let_def)
qed

text \<open>
  C10: \<^verbatim>\<open>GetToken\<close> makes progress. Under the conditions of the refinement theorem
  the pending input after the call is a proper suffix of the pending input
  before it, and the token is not \<open>END_OF_FILE\<close>: this is why the loop of \<^verbatim>\<open>main\<close>
  reaches the end of the text.
\<close>

theorem GetToken_progress:
  assumes "tokens L = []" and "list_all isspace ws"
    and "input L = \<lparr>pending = ws @ s, eof = False\<rparr>"
    and "s \<noteq> []" and "\<not> isspace (hd s)" and "\<not> token_end s"
  shows "strict_suffix (pending (input (snd (GetToken u L)))) (pending (input L))
    \<and> token_type (fst (GetToken u L)) \<noteq> END_OF_FILE"
proof -
  obtain l k r where spec: "token_spec s = (l, k, r)"
    by (cases "token_spec s") auto
  from token_spec_sound [OF assms(4) spec] have "strict_suffix r (ws @ s)" and "k \<noteq> END_OF_FILE"
    by (auto simp: strict_suffix_def suffix_append)
  with GetToken_spec [OF assms, of u] spec assms(3) show ?thesis
    by (simp add: emits_def Let_def)
qed

theorem GetToken_progress_witness:
  "\<forall>u. strict_suffix (pending (input (snd (GetToken u (new_LexicalAnalyzer '' 0.5;'')))))
        (pending (input (new_LexicalAnalyzer '' 0.5;'')))
    \<and> token_type (fst (GetToken u (new_LexicalAnalyzer '' 0.5;''))) \<noteq> END_OF_FILE"
proof
  fix u
  have "\<not> token_end ''0.5;''"
    by code_simp
  moreover have "\<not> isspace (CHR ''0'')"
    by (simp add: isspace_def)
  ultimately show "strict_suffix (pending (input (snd (GetToken u (new_LexicalAnalyzer '' 0.5;'')))))
        (pending (input (new_LexicalAnalyzer '' 0.5;'')))
    \<and> token_type (fst (GetToken u (new_LexicalAnalyzer '' 0.5;''))) \<noteq> END_OF_FILE"
    using GetToken_progress [of "new_LexicalAnalyzer '' 0.5;''" "'' ''" "''0.5;''" u]
    by (simp add: new_LexicalAnalyzer_def cursor_of_def)
qed

text \<open>
  C15: The three outcomes of \<open><\<close>. Followed by \<open>=\<close> it is the token \<open>LTEQ\<close>, followed by
  \<open>>\<close> the token \<open>NOTEQUAL\<close>, and both characters are taken; followed by any other
  character it is \<open>LESS\<close>, and that character is still the next one of the input.
  The lexeme of the token is empty in all three cases.
\<close>

theorem GetToken_less:
  assumes "tokens L = []" and "input L = \<lparr>pending = CHR ''<'' # y # r, eof = False\<rparr>"
  shows "GetToken u L =
     (if y = CHR ''='' then emits L [] LTEQ r
      else if y = CHR ''>'' then emits L [] NOTEQUAL r
      else emits L [] LESS (y # r))"
proof -
  have "\<not> token_end (CHR ''<'' # y # r)" and "single_kind (CHR ''<'') = None"
    by (simp_all add: token_end_def single_kind_def)
  with GetToken_spec [of L "[]" "CHR ''<'' # y # r" u] assms show ?thesis
    by (simp add: token_spec_def isspace_def char_le_code emits_def Let_def)
qed

theorem GetToken_less_witness:
  "\<forall>u. GetToken u (new_LexicalAnalyzer ''<a'') = emits (new_LexicalAnalyzer ''<a'') [] LESS ''a''"
  using GetToken_less [of "new_LexicalAnalyzer ''<a''" "CHR ''a''" "[]"]
  by (simp add: new_LexicalAnalyzer_def cursor_of_def)

text \<open>
  C16: The two outcomes of \<open>>\<close>. Followed by \<open>=\<close> it is the token \<open>GTEQ\<close> and both
  characters are taken; followed by any other character, \<open><\<close> included, it is
  \<open>GREATER\<close> and that character is still the next one of the input.
\<close>

theorem GetToken_greater:
  assumes "tokens L = []" and "input L = \<lparr>pending = CHR ''>'' # y # r, eof = False\<rparr>"
  shows "GetToken u L =
     (if y = CHR ''='' then emits L [] GTEQ r else emits L [] GREATER (y # r))"
proof -
  have "\<not> token_end (CHR ''>'' # y # r)" and "single_kind (CHR ''>'') = None"
    by (simp_all add: token_end_def single_kind_def)
  with GetToken_spec [of L "[]" "CHR ''>'' # y # r" u] assms show ?thesis
    by (simp add: token_spec_def isspace_def char_le_code emits_def Let_def)
qed

theorem GetToken_greater_witness:
  "\<forall>u. GetToken u (new_LexicalAnalyzer ''><'') =
     emits (new_LexicalAnalyzer ''><'') [] GREATER ''<''"
  using GetToken_greater [of "new_LexicalAnalyzer ''><''" "CHR ''<''" "[]"]
  by (simp add: new_LexicalAnalyzer_def cursor_of_def)

text \<open>
  C17: A character that is an operator or a punctuation mark by itself is one
  token of its kind, with an empty lexeme, at the current line; the character
  is consumed and nothing else is.
\<close>

theorem GetToken_single:
  assumes "tokens L = []" and "input L = \<lparr>pending = c # r, eof = False\<rparr>"
    and "single_kind c = Some k"
  shows "GetToken u L = emits L [] k r"
proof -
  from assms(3) have "\<not> isspace c" and "\<not> token_end (c # r)"
    by (auto simp: single_kind_def token_end_def isspace_def isdigit_def isalpha_def
        islower_def isupper_def char_le_code split: if_splits)
  with GetToken_spec [of L "[]" "c # r" u] assms show ?thesis
    by (simp add: token_spec_def emits_def Let_def)
qed

theorem GetToken_single_witness:
  "\<forall>u. GetToken u (new_LexicalAnalyzer '';x'') =
     emits (new_LexicalAnalyzer '';x'') [] SEMICOLON ''x''"
  using GetToken_single [of "new_LexicalAnalyzer '';x''" "CHR '';''" "''x''" SEMICOLON]
  by (simp add: new_LexicalAnalyzer_def cursor_of_def single_kind_def)

text \<open>
  C18: A character that starts no token (no white space, digit, letter, operator
  or punctuation mark) gives a token of kind \<open>ERROR\<close>. The character is consumed,
  and the lexeme of the token is empty: the token does not say which character
  it was.
\<close>

theorem GetToken_error:
  assumes "tokens L = []" and "input L = \<lparr>pending = c # r, eof = False\<rparr>"
    and "single_kind c = None" and "c \<noteq> CHR ''<''" and "c \<noteq> CHR ''>''"
    and "\<not> isspace c" and "\<not> isdigit c" and "\<not> isalpha c"
  shows "GetToken u L = emits L [] ERROR r"
proof -
  from assms(4,5,7,8) have "\<not> token_end (c # r)"
    by (simp add: token_end_def)
  with GetToken_spec [of L "[]" "c # r" u] assms show ?thesis
    by (simp add: token_spec_def emits_def Let_def)
qed

theorem GetToken_error_witness:
  "\<forall>u. GetToken u (new_LexicalAnalyzer ''@x'') =
     emits (new_LexicalAnalyzer ''@x'') [] ERROR ''x''"
  using GetToken_error [of "new_LexicalAnalyzer ''@x''" "CHR ''@''" "''x''"]
  by (simp add: new_LexicalAnalyzer_def cursor_of_def single_kind_def isspace_def isdigit_def
      isalpha_def islower_def isupper_def char_le_code)

section \<open>The end of the input\<close>

text \<open>
  C34: On a text of white space only, the token is \<open>END_OF_FILE\<close> (for harmless values
  of the unassigned variables), and its line is the line of the state plus the
  number of newlines in the text - plus one more when the text ends with a
  newline: the fetch after the last character fails, \<^verbatim>\<open>SkipSpace\<close> tests its
  variable again, and the last newline is counted twice.
\<close>

theorem GetToken_whitespace_only:
  assumes "benign u" and "list_all isspace ws" and "ws \<noteq> []"
  shows "fst (GetToken u (new_LexicalAnalyzer ws)) =
     \<lparr>lexeme = [], token_type = END_OF_FILE,
      Token.line_no = 1 + newlines ws + (if last ws = newline then 1 else 0)\<rparr>"
  using GetToken_only_space [OF assms(1) _ assms(2,3), of "new_LexicalAnalyzer ws"]
  by (simp add: new_LexicalAnalyzer_def cursor_of_def emits_eof_def Let_def)

theorem GetToken_whitespace_only_witness:
  "fst (GetToken null_init (new_LexicalAnalyzer [CHR '' '', newline])) =
     \<lparr>lexeme = [], token_type = END_OF_FILE, Token.line_no = 3\<rparr>"
  using GetToken_whitespace_only [OF benign_null_init, of "[CHR '' '', newline]"]
  by simp

text \<open>
  C33: Once nothing is pending, \<^verbatim>\<open>GetToken\<close> keeps delivering \<open>END_OF_FILE\<close> (for harmless
  values of the unassigned variables): the call returns the \<open>END_OF_FILE\<close> token on
  the current line, and a second call returns the same token and leaves the
  state as the first one left it.
\<close>

theorem GetToken_at_end:
  assumes "benign u" and "tokens L = []" and "pending (input L) = []"
  shows "GetToken u L = emits_eof L (line_no L)
    \<and> GetToken u (snd (GetToken u L)) = GetToken u L"
proof -
  note first = GetToken_exhausted [OF assms]
  have "GetToken u (snd (emits_eof L (line_no L))) =
      emits_eof (snd (emits_eof L (line_no L))) (line_no L)"
    using GetToken_exhausted [OF assms(1), of "snd (emits_eof L (line_no L))"] assms(2)
    by (simp add: emits_eof_def Let_def)
  with first show ?thesis
    by (simp add: emits_eof_def Let_def)
qed

theorem GetToken_at_end_witness:
  "GetToken null_init (snd (GetToken null_init (new_LexicalAnalyzer []))) =
     GetToken null_init (new_LexicalAnalyzer [])"
proof -
  have "tokens (new_LexicalAnalyzer []) = []" and "pending (input (new_LexicalAnalyzer [])) = []"
    by (simp_all add: new_LexicalAnalyzer_def)
  from GetToken_at_end [OF benign_null_init this] show ?thesis
    by (rule conjunct2)
qed

text \<open>
  C35: At the end of the input the kind of the token depends on a variable that
  was never assigned. When nothing is pending, the fetch in \<^verbatim>\<open>GetToken\<close> fails and
  the \<^verbatim>\<open>switch\<close> tests the value that \<open>c\<close> happened to have: if that is a semicolon,
  the token is \<open>SEMICOLON\<close> and not \<open>END_OF_FILE\<close>.
\<close>

theorem GetToken_uninitialised:
  assumes "tokens L = []" and "pending (input L) = []" and "c_GetToken u = CHR '';''"
  shows "token_type (fst (GetToken u L)) = SEMICOLON"
proof -
  have "GetToken_switch u (CHR '';'') L' = return_type SEMICOLON L'" for L'
    by (simp add: GetToken_switch_def)
  with assms show ?thesis
    by (simp add: GetToken_def SkipSpace_end split_beta Let_def GetChar_def return_type_def)
qed

theorem GetToken_uninitialised_witness:
  "token_type (fst (GetToken (null_init\<lparr>c_GetToken := CHR '';''\<rparr>) (new_LexicalAnalyzer [])))
     = SEMICOLON"
  using GetToken_uninitialised [of "new_LexicalAnalyzer []" "null_init\<lparr>c_GetToken := CHR '';''\<rparr>"]
  by (simp add: new_LexicalAnalyzer_def)

text \<open>
  C11: A decimal number at the very end of the input loses digits. On white
  space followed by decimal digits \<open>d # ds\<close> that do not start with \<open>0\<close> and have
  nothing after them, \<^verbatim>\<open>GetToken\<close> returns a token \<open>NUM\<close> whose lexeme lacks the last
  two digits of \<open>ds\<close>, or the last three when \<open>d\<close> and all of \<open>ds\<close> but its last digit
  are octal; a single digit is returned whole. The attempt at a real number
  runs past the end and pushes the digits back; each later attempt that reads
  up to the end works on a cursor that has seen the end, where the loop stops
  with the last digit fetched, not collected and not pushed back. The cursor
  ends with nothing pending.
\<close>

theorem GetToken_truncates:
  assumes "tokens L = []" and "list_all isspace ws"
    and "input L = \<lparr>pending = ws @ d # ds, eof = False\<rparr>"
    and "isdigit d" and "d \<noteq> CHR ''0''" and "list_all isdigit ds"
  shows "GetToken u L =
     emits_last (L\<lparr>line_no := line_no L + newlines ws\<rparr>) (d # digits_kept d ds) NUM"
  using assms by (rule GetToken_number_at_end)

theorem GetToken_truncates_witness:
  "\<forall>u. GetToken u (new_LexicalAnalyzer ''12'') = emits_last (new_LexicalAnalyzer ''12'') ''1'' NUM
    \<and> GetToken u (new_LexicalAnalyzer ''12345'') =
        emits_last (new_LexicalAnalyzer ''12345'') ''12'' NUM
    \<and> GetToken u (new_LexicalAnalyzer ''98765'') =
        emits_last (new_LexicalAnalyzer ''98765'') ''987'' NUM"
proof -
  have "digits_kept (CHR ''1'') ''2'' = []" "digits_kept (CHR ''1'') ''2345'' = ''2''"
    "digits_kept (CHR ''9'') ''8765'' = ''87''"
    by (simp_all add: digits_kept_def octal_run_def digit_eval)
  then show ?thesis
    using GetToken_truncates [of "new_LexicalAnalyzer ''12''" "[]" "CHR ''1''" "''2''"]
      GetToken_truncates [of "new_LexicalAnalyzer ''12345''" "[]" "CHR ''1''" "''2345''"]
      GetToken_truncates [of "new_LexicalAnalyzer ''98765''" "[]" "CHR ''9''" "''8765''"]
    by (simp add: new_LexicalAnalyzer_def cursor_of_def isdigit_def char_le_code)
qed

section \<open>Invariants of a call\<close>

text \<open>
  C9: A token that \<^verbatim>\<open>GetToken\<close> reads from the input (the stack of returned tokens
  being empty) carries the value that the line counter has when the call
  returns, and the call never lowers the counter.
\<close>

theorem GetToken_stamps_line:
  assumes "tokens L = []"
  shows "Token.line_no (fst (GetToken u L)) = line_no (snd (GetToken u L))
    \<and> line_no L \<le> line_no (snd (GetToken u L))"
  using assms by (simp add: GetToken_stamp GetToken_line_no_aux)

theorem GetToken_stamps_line_witness:
  "\<forall>u. tokens (new_LexicalAnalyzer ([newline] @ ''x '')) = []
    \<and> Token.line_no (fst (GetToken u (new_LexicalAnalyzer ([newline] @ ''x '')))) =
      line_no (snd (GetToken u (new_LexicalAnalyzer ([newline] @ ''x ''))))
    \<and> 1 \<le> line_no (snd (GetToken u (new_LexicalAnalyzer ([newline] @ ''x ''))))"
  using GetToken_stamps_line [of "new_LexicalAnalyzer ([newline] @ ''x '')"]
  by (simp add: new_LexicalAnalyzer_def)

section \<open>The tables\<close>

text \<open>
  C19: The two loops over the keyword table compute membership and position:
  \<^verbatim>\<open>IsKeyword\<close> holds exactly for the entries of \<^verbatim>\<open>keyword\<close>, and \<^verbatim>\<open>FindKeywordIndex\<close>
  returns the kind whose integer value is one more than the position of the
  first entry equal to the text, and \<open>ERROR\<close> for a text that is no keyword.
\<close>

theorem keyword_lookup:
  "IsKeyword s = (s \<in> set keyword) \<and>
   FindKeywordIndex s =
     (if IsKeyword s then TokenType_of_int (Suc (index_of s keyword)) else ERROR)"
  by (simp add: IsKeyword_iff FindKeywordIndex_index)

text \<open>
  C20: The keyword table and the table of names agree: for a keyword,
  \<^verbatim>\<open>FindKeywordIndex\<close> returns a kind between \<open>IF\<close> and \<open>PRINT\<close>, and the name that
  \<^verbatim>\<open>Print\<close> looks up for that kind is the keyword itself.
\<close>

theorem keyword_round_trip:
  assumes "IsKeyword s"
  shows "reserved ! int_of_TokenType (FindKeywordIndex s) = s
    \<and> IF \<le> FindKeywordIndex s \<and> FindKeywordIndex s \<le> PRINT"
  using assms by (simp add: keyword_name FindKeywordIndex_range)

theorem keyword_round_trip_witness:
  "IsKeyword ''THEN'' \<and> reserved ! int_of_TokenType (FindKeywordIndex ''THEN'') = ''THEN''
    \<and> IF \<le> FindKeywordIndex ''THEN'' \<and> FindKeywordIndex ''THEN'' \<le> PRINT"
  using keyword_round_trip [of "''THEN''"] by (simp add: IsKeyword_cases)

section \<open>The scanning loop and the marker\<close>

text \<open>
  C8: The scanning loop with its push-back is the longest-prefix split of the
  input. On a cursor that has not seen the end, with \<open>c\<close> the character fetched
  last and \<open>s\<close> pending, \<open>scan_run\<close> appends \<open>takeWhile P (c # s)\<close> to the text
  collected and leaves \<open>dropWhile P (c # s)\<close> pending; the end flag is set exactly
  when nothing is left.
\<close>

theorem scan_run_reference:
  "scan_run P (c, scanned, \<lparr>pending = s, eof = False\<rparr>) =
     (lookahead P (last (c # s)) (c # s), scanned @ takeWhile P (c # s),
      \<lparr>pending = dropWhile P (c # s), eof = (dropWhile P (c # s) = [])\<rparr>)"
  by (rule scan_run_fresh)

text \<open>
  C22: The scanning loop on a cursor that has seen the end. With \<open>c\<close> fetched last
  and \<open>s @ [z]\<close> pending, the loop looks at \<open>c\<close> and at \<open>s\<close>, never at \<open>z\<close>: it appends
  \<open>takeWhile P (c # s)\<close> to the text collected; if that is all of \<open>c # s\<close>, the
  character \<open>z\<close> has been fetched and nothing is pushed back, so \<open>z\<close> is lost;
  otherwise the rest stays pending with \<open>z\<close> behind it.
\<close>

theorem scan_run_after_end:
  "scan_run P (c, scanned, \<lparr>pending = s @ [z], eof = True\<rparr>) =
     (lookahead P z (c # s), scanned @ takeWhile P (c # s),
      \<lparr>pending = (if dropWhile P (c # s) = [] then [] else dropWhile P (c # s) @ [z]),
       eof = True\<rparr>)"
  by (rule scan_run_seen)

text \<open>
  C21: The digits of the three bases. \<^verbatim>\<open>isDigitInBase\<close> accepts exactly the
  characters \<open>0\<close> to \<open>7\<close> in base 8, \<open>0\<close> to \<open>9\<close> in base 10, and these with the letters
  \<open>A\<close> to \<open>F\<close> in either case in base 16; \<^verbatim>\<open>isPositiveDigitInBase\<close> accepts the same
  characters except \<open>0\<close>, in every base.
\<close>

theorem digit_classes:
  "isDigitInBase c 8 = (c \<in> set ''01234567'')
   \<and> isDigitInBase c 10 = (c \<in> set ''0123456789'')
   \<and> isDigitInBase c 16 = (c \<in> set ''0123456789ABCDEFabcdef'')
   \<and> isPositiveDigitInBase c b = (isDigitInBase c b \<and> c \<noteq> CHR ''0'')"
  using octal_digits [of c] decimal_digits [of c] hex_digits [of c] positive_digits [of c b]
  by blast

text \<open>
  C7: \<^verbatim>\<open>verifyPatternMatch\<close> is a transaction on the cursor. A call that does not
  run into the end of the input (the end flag is as before) returns whether
  the pending input starts with the marker; if it does the marker is consumed,
  and if it does not the cursor is exactly as it was.
\<close>

theorem verifyPatternMatch_contract:
  assumes "verifyPatternMatch u s inp = (b, inp')" and "eof inp' = eof inp"
  shows "b = prefix s (pending inp)
    \<and> (if b then pending inp = s @ pending inp' else inp' = inp)"
  using verifyPatternMatch_transaction [OF assms] by simp

theorem verifyPatternMatch_contract_witness:
  "\<forall>u. verifyPatternMatch u ''x08'' \<lparr>pending = ''x16;'', eof = False\<rparr>
      = (False, \<lparr>pending = ''x16;'', eof = False\<rparr>)
    \<and> False = prefix ''x08'' ''x16;''"
proof
  fix u
  have run: "verifyPatternMatch u ''x08'' \<lparr>pending = ''x16;'', eof = False\<rparr>
      = (False, \<lparr>pending = ''x16;'', eof = False\<rparr>)"
    using verifyPatternMatch_mismatch [of "CHR ''0''" "CHR ''1''" u "''x''" "''8''" "''6;''" False]
    by simp
  from verifyPatternMatch_contract [OF run] run
  show "verifyPatternMatch u ''x08'' \<lparr>pending = ''x16;'', eof = False\<rparr>
      = (False, \<lparr>pending = ''x16;'', eof = False\<rparr>)
    \<and> False = prefix ''x08'' ''x16;''"
    by simp
qed

text \<open>
  C36: \<^verbatim>\<open>verifyPatternMatch\<close> invents input at the end. When the pending input is a
  proper prefix \<open>p\<close> of the marker and the end has not been seen, the fetch after
  \<open>p\<close> fails and leaves \<open>c\<close> as it was; the function collects that stale value and
  pushes it back with the rest, so the cursor holds one character more than
  the input had: after the text \<open>x\<close> and the marker \<open>x08\<close>, the cursor holds \<open>xx\<close>.
\<close>

theorem verifyPatternMatch_fabricates:
  assumes "stale (c_verifyPatternMatch u) p \<noteq> x"
  shows "verifyPatternMatch u (p @ x # s) \<lparr>pending = p, eof = False\<rparr> =
     (False, \<lparr>pending = p @ [stale (c_verifyPatternMatch u) p], eof = True\<rparr>)"
  using assms by (rule verifyPatternMatch_short_fresh)

theorem verifyPatternMatch_fabricates_witness:
  "\<forall>u. verifyPatternMatch u ''x08'' \<lparr>pending = ''x'', eof = False\<rparr> =
     (False, \<lparr>pending = ''xx'', eof = True\<rparr>)"
  using verifyPatternMatch_fabricates [of _ "''x''" "CHR ''0''" "''8''"] by simp

section \<open>Words and white space\<close>

text \<open>
  C12: A letter followed by more input, not all of it letters and digits:
  \<^verbatim>\<open>ScanIdOrKeyword\<close> returns the longest run of letters and digits as lexeme, with
  the kind of the keyword if the run is one and \<open>ID\<close> otherwise, at the current
  line; the cursor stands in front of the first character after the run.
\<close>

theorem ScanIdOrKeyword_word:
  assumes "isalpha c" and "input L = \<lparr>pending = c # t, eof = False\<rparr>"
    and "dropWhile isalnum t \<noteq> []"
  shows "ScanIdOrKeyword u L =
     emits L (c # takeWhile isalnum t) (word_kind (c # takeWhile isalnum t)) (dropWhile isalnum t)"
  using assms(3) ScanIdOrKeyword_fresh [OF assms(1,2), of u]
  by (simp add: emits_def Let_def del: dropWhile_eq_Nil_conv)

theorem ScanIdOrKeyword_word_witness:
  "\<forall>u. ScanIdOrKeyword u (new_LexicalAnalyzer ''x1 = 2'') =
     emits (new_LexicalAnalyzer ''x1 = 2'') ''x1'' ID '' = 2''"
  using ScanIdOrKeyword_word [of "CHR ''x''" "new_LexicalAnalyzer ''x1 = 2''" "''1 = 2''"]
  by (simp add: new_LexicalAnalyzer_def cursor_of_def isalpha_def islower_def isupper_def
      isalnum_def isdigit_def char_le_code word_kind_ID keyword_def)

text \<open>
  C13: The kind of a word is decided by the keyword table, with the case of the
  letters: a letter followed by any input gives a token whose lexeme is the
  longest run of letters and digits, and whose kind is \<open>IF\<close>, \<open>WHILE\<close>, \<open>DO\<close>, \<open>THEN\<close>
  or \<open>PRINT\<close> when the lexeme is exactly that word in capitals, and \<open>ID\<close> for
  every other word, also when the word ends with the input.
\<close>

theorem ScanIdOrKeyword_kind:
  assumes "isalpha c" and "input L = \<lparr>pending = c # t, eof = False\<rparr>"
  shows "lexeme (fst (ScanIdOrKeyword u L)) = c # takeWhile isalnum t
    \<and> token_type (fst (ScanIdOrKeyword u L)) =
      (let w = c # takeWhile isalnum t
       in if w = ''IF'' then IF else if w = ''WHILE'' then WHILE else if w = ''DO'' then DO
          else if w = ''THEN'' then THEN else if w = ''PRINT'' then PRINT else ID)"
  using ScanIdOrKeyword_fresh [OF assms, of u]
  by (simp add: Let_def word_kind_def IsKeyword_cases)

theorem ScanIdOrKeyword_kind_witness:
  "\<forall>u. lexeme (fst (ScanIdOrKeyword u (new_LexicalAnalyzer ''While(x)''))) = ''While''
    \<and> token_type (fst (ScanIdOrKeyword u (new_LexicalAnalyzer ''While(x)''))) = ID"
  using ScanIdOrKeyword_kind [of "CHR ''W''" "new_LexicalAnalyzer ''While(x)''" "''hile(x)''"]
  by (simp add: new_LexicalAnalyzer_def cursor_of_def isalpha_def islower_def isupper_def
      isalnum_def isdigit_def char_le_code Let_def)

text \<open>
  C14: White space in front of another character: \<^verbatim>\<open>SkipSpace\<close> reports whether
  there was any, adds the number of newlines in it to the line counter, and
  leaves the cursor in front of that character.
\<close>

theorem SkipSpace_counts:
  assumes "list_all isspace ws" and "\<not> isspace x"
    and "input L = \<lparr>pending = ws @ x # r, eof = False\<rparr>"
  shows "SkipSpace u L =
     (ws \<noteq> [], L\<lparr>line_no := line_no L + newlines ws,
                     input := \<lparr>pending = x # r, eof = False\<rparr>\<rparr>)"
  using assms by (rule SkipSpace_fresh)

theorem SkipSpace_counts_witness:
  "\<forall>u. SkipSpace u (new_LexicalAnalyzer ([newline, CHR '' '', newline] @ ''x'')) =
     (True, (new_LexicalAnalyzer ([newline, CHR '' '', newline] @ ''x''))
        \<lparr>line_no := 3, input := \<lparr>pending = ''x'', eof = False\<rparr>\<rparr>)"
  using SkipSpace_counts [of "[newline, CHR '' '', newline]" "CHR ''x''"
      "new_LexicalAnalyzer ([newline, CHR '' '', newline] @ ''x'')" "[]"]
  by (simp add: new_LexicalAnalyzer_def cursor_of_def isspace_def)

end
